theory Spec2Isabelle
  imports Complex_Main "HOL-Library.FSet" "HOL-Library.Log_Nat"
begin

section \<open>SUGARBEAR: the pattern model, the Scheduler and the Sequencer\<close>

text \<open>
  The development follows three source files: the pattern model
  (\<^verbatim>\<open>types/sequencer.types.ts\<close>), the lookahead Scheduler
  (\<^verbatim>\<open>audio/Scheduler.ts\<close>) and the Sequencer
  (\<^verbatim>\<open>sequencer/Sequencer.ts\<close>), with \<^verbatim>\<open>gainValue\<close> of
  \<^verbatim>\<open>types/audio.types.ts\<close>.

  Numbers. A TypeScript \<^verbatim>\<open>number\<close> that holds a time, a beat, a tempo or a gain
  is a rational here; the infinities and NaN are not part of the model. Hence a tempo
  is taken to be positive wherever it is divided by (the \<^verbatim>\<open>bpm\<close> constructor
  clamps to 60..200). In the Scheduler, whose clock is a running sum, every arithmetic
  operation rounds its exact result to the nearest double (\<open>fl\<close> below), as IEEE 754
  does; in the Sequencer arithmetic is exact. The one place where the source can meet
  NaN on integer inputs, the remainder by a pattern length of zero, is modelled
  explicitly (\<open>None\<close>).
  \<^verbatim>\<open>new Date()\<close> is an extra argument \<open>now\<close>, a time stamp in milliseconds;
  the readings of the audio clock are arguments as well. Console output is left out.
\<close>

type_synonym Seconds = rat
type_synonym BeatTime = rat
type_synonym GainValue = rat
type_synonym BPM = rat
type_synonym TrackId = string
type_synonym PatternId = string
type_synonym StepIndex = int
type_synonym Date = int

subsection \<open>Double precision\<close>

text \<open>
  \<open>fl x\<close> is the double nearest to the rational \<open>x\<close>: the significand has 53 bits,
  so the spacing of the doubles around \<open>x\<close> is \<open>2 powi (e - 52)\<close> for the exponent
  \<open>e = \<lfloor>log\<^sub>2 \<bar>x\<bar>\<rfloor>\<close>, and a tie goes to the even significand. The exponent is
  not bounded: overflow to infinity (from \<open>2^1024\<close>) and the subnormal numbers (below
  \<open>2^-1022\<close>) are left out, which no time, beat or tempo of the Scheduler comes near.
\<close>

definition round_half_even :: "rat \<Rightarrow> int" where
  "round_half_even q =
     (let n = \<lfloor>q\<rfloor>; r = q - of_int n
      in if r < 1 / 2 then n else if 1 / 2 < r then n + 1 else if even n then n else n + 1)"

text \<open>The exponent of a non-zero rational \<open>p / q\<close>, from the bit lengths of \<open>p\<close> and
  \<open>q\<close>: it is their difference or one less.\<close>

definition exponent :: "rat \<Rightarrow> int" where
  "exponent x =
     (case quotient_of \<bar>x\<bar> of
        (p, q) \<Rightarrow>
          let e0 = bitlen p - bitlen q
          in if 2 powi e0 \<le> \<bar>x\<bar> then e0 else e0 - 1)"

definition fl :: "rat \<Rightarrow> rat" where
  "fl x =
     (if x = 0 then 0
      else let u = 2 powi (exponent x - 52)
           in of_int (round_half_even (x / u)) * u)"

subsection \<open>audio.types.ts\<close>

text \<open>\<^verbatim>\<open>gainValue = value => Math.max(0, Math.min(1, value))\<close>\<close>

definition gainValue :: "rat \<Rightarrow> GainValue" where
  "gainValue v = max 0 (min 1 v)"

text \<open>\<^verbatim>\<open>VoiceConfig\<close>: the argument of \<^verbatim>\<open>playVoice\<close>.\<close>

record VoiceConfig =
  sampleId_v :: string
  startTime :: Seconds
  gain :: GainValue

subsection \<open>sequencer.types.ts: Step, Track, Pattern\<close>

record Step =
  active :: bool
  velocity :: GainValue

text \<open>Fields \<^verbatim>\<open>id\<close> and \<^verbatim>\<open>name\<close> of a Track carry the suffix \<open>_t\<close>.\<close>

record Track =
  id_t :: TrackId
  name_t :: string
  sampleId :: string
  steps :: "Step list"
  volume :: GainValue
  muted :: bool
  soloed :: bool
  color :: string

record TimeSignature =
  numerator :: int
  denominator :: int

text \<open>Fields \<^verbatim>\<open>id\<close>, \<^verbatim>\<open>name\<close> and \<^verbatim>\<open>length\<close> of a Pattern carry the
  suffix \<open>_p\<close>.\<close>

record Pattern =
  id_p :: PatternId
  name_p :: string
  tracks :: "Track list"
  length_p :: int
  timeSignature :: TimeSignature
  createdAt :: Date
  modifiedAt :: Date

text \<open>
  \<^verbatim>\<open>Array.prototype.map\<close> with its index argument: \<open>map_idx f k xs\<close> applies
  \<open>f\<close> to every element and its index, \<open>k\<close> being the index of the head.
\<close>

fun map_idx :: "(nat \<Rightarrow> 'a \<Rightarrow> 'b) \<Rightarrow> nat \<Rightarrow> 'a list \<Rightarrow> 'b list" where
  "map_idx f k [] = []"
| "map_idx f k (x # xs) = f k x # map_idx f (Suc k) xs"

text \<open>The immutable pattern operations. \<^verbatim>\<open>idx === stepIdx\<close> compares the
  array index with the number passed in, which no index equals when it is negative.\<close>

definition toggleStep :: "Date \<Rightarrow> Pattern \<Rightarrow> TrackId \<Rightarrow> StepIndex \<Rightarrow> Pattern" where
  "toggleStep now pattern trackId stepIdx =
     pattern\<lparr>tracks :=
         map (\<lambda>track.
           if id_t track = trackId
           then track\<lparr>steps :=
                  map_idx (\<lambda>idx step.
                    if int idx = stepIdx then step\<lparr>active := \<not> active step\<rparr> else step)
                    0 (steps track)\<rparr>
           else track) (tracks pattern),
       modifiedAt := now\<rparr>"

definition setStepVelocity ::
  "Date \<Rightarrow> Pattern \<Rightarrow> TrackId \<Rightarrow> StepIndex \<Rightarrow> GainValue \<Rightarrow> Pattern" where
  "setStepVelocity now pattern trackId stepIdx v =
     pattern\<lparr>tracks :=
         map (\<lambda>track.
           if id_t track = trackId
           then track\<lparr>steps :=
                  map_idx (\<lambda>idx step.
                    if int idx = stepIdx then step\<lparr>velocity := v\<rparr> else step)
                    0 (steps track)\<rparr>
           else track) (tracks pattern),
       modifiedAt := now\<rparr>"

definition setTrackVolume :: "Date \<Rightarrow> Pattern \<Rightarrow> TrackId \<Rightarrow> GainValue \<Rightarrow> Pattern" where
  "setTrackVolume now pattern trackId v =
     pattern\<lparr>tracks :=
         map (\<lambda>track. if id_t track = trackId then track\<lparr>volume := v\<rparr> else track)
           (tracks pattern),
       modifiedAt := now\<rparr>"

definition toggleTrackMute :: "Date \<Rightarrow> Pattern \<Rightarrow> TrackId \<Rightarrow> Pattern" where
  "toggleTrackMute now pattern trackId =
     pattern\<lparr>tracks :=
         map (\<lambda>track. if id_t track = trackId then track\<lparr>muted := \<not> muted track\<rparr> else track)
           (tracks pattern),
       modifiedAt := now\<rparr>"

definition toggleTrackSolo :: "Date \<Rightarrow> Pattern \<Rightarrow> TrackId \<Rightarrow> Pattern" where
  "toggleTrackSolo now pattern trackId =
     pattern\<lparr>tracks :=
         map (\<lambda>track. if id_t track = trackId then track\<lparr>soloed := \<not> soloed track\<rparr> else track)
           (tracks pattern),
       modifiedAt := now\<rparr>"

subsection \<open>Scheduler.ts\<close>

record SchedulerConfig =
  lookahead :: Seconds
  scheduleInterval :: rat

text \<open>
  The private fields of the class, prefixed \<open>s_\<close>. \<open>s_callback\<close> tells whether a
  callback is registered (\<^verbatim>\<open>_callback !== null\<close>); \<open>s_intervalId\<close> is the
  handle of the polling timer. What the registered callback does is an argument \<open>cb\<close>
  of a poll pass: \<open>cb (time, beat)\<close> holds when the call returns and fails when it
  throws. A callback does not call back into the Scheduler (the Sequencer's does not).
\<close>

record Scheduler =
  s_config :: SchedulerConfig
  s_bpm :: BPM
  s_isRunning :: bool
  s_intervalId :: "nat option"
  s_callback :: bool
  s_currentBeat :: BeatTime
  s_nextNoteTime :: Seconds

type_synonym Tick = "Seconds \<times> BeatTime"

definition Scheduler_new :: "BPM \<Rightarrow> SchedulerConfig \<Rightarrow> Scheduler" where
  "Scheduler_new initialBPM cfg =
     \<lparr>s_config = cfg, s_bpm = initialBPM, s_isRunning = False, s_intervalId = None,
      s_callback = False, s_currentBeat = 0, s_nextNoteTime = 0\<rparr>"

text \<open>\<open>ctxTime\<close> is \<^verbatim>\<open>this._context.currentTime\<close>, \<open>iid\<close> the handle that
  \<^verbatim>\<open>window.setInterval\<close> returns.\<close>

definition Scheduler_start :: "Seconds \<Rightarrow> nat \<Rightarrow> Scheduler \<Rightarrow> Scheduler" where
  "Scheduler_start ctxTime iid s =
     (if s_isRunning s then s
      else s\<lparr>s_callback := True, s_isRunning := True, s_currentBeat := 0,
             s_nextNoteTime := ctxTime, s_intervalId := Some iid\<rparr>)"

definition Scheduler_stop :: "Scheduler \<Rightarrow> Scheduler" where
  "Scheduler_stop s =
     (if \<not> s_isRunning s then s
      else s\<lparr>s_isRunning := False, s_intervalId := None, s_callback := False,
             s_currentBeat := 0, s_nextNoteTime := 0\<rparr>)"

definition Scheduler_setTempo :: "BPM \<Rightarrow> Scheduler \<Rightarrow> Scheduler" where
  "Scheduler_setTempo newBPM s = s\<lparr>s_bpm := newBPM\<rparr>"

text \<open>\<^verbatim>\<open>60.0 / this._bpm\<close>, \<^verbatim>\<open>secondsPerBeat / 4\<close> and the two additions each
  round to a double.\<close>

definition Scheduler_advanceNote :: "Scheduler \<Rightarrow> Scheduler" where
  "Scheduler_advanceNote s =
     (let secondsPerBeat = fl (60 / s_bpm s);
          secondsPerSixteenth = fl (secondsPerBeat / 4)
      in s\<lparr>s_nextNoteTime := fl (s_nextNoteTime s + secondsPerSixteenth),
            s_currentBeat := fl (s_currentBeat s + 1 / 4)\<rparr>)"

text \<open>
  The \<^verbatim>\<open>while\<close> loop of \<^verbatim>\<open>_scheduleLoop\<close>; \<open>acc\<close> collects the calls of the
  callback in order. A call that throws ends the pass before \<^verbatim>\<open>_advanceNote\<close>:
  the exception leaves through the timer, and the state stays as it is. The loop
  need not end (a tempo that is not positive never reaches the end of the window),
  so it is a partial function: \<open>None\<close> is a pass that does not return.
\<close>

partial_function (option) Scheduler_while ::
  "(Tick \<Rightarrow> bool) \<Rightarrow> Seconds \<Rightarrow> Scheduler \<Rightarrow> Tick list \<Rightarrow> (Scheduler \<times> Tick list) option"
  where
  "Scheduler_while cb lookaheadEndTime s acc =
     (if s_nextNoteTime s < lookaheadEndTime
      then if cb (s_nextNoteTime s, s_currentBeat s)
        then Scheduler_while cb lookaheadEndTime (Scheduler_advanceNote s)
               (acc @ [(s_nextNoteTime s, s_currentBeat s)])
        else Some (s, acc @ [(s_nextNoteTime s, s_currentBeat s)])
      else Some (s, acc))"

declare Scheduler_while.simps [code]

definition Scheduler_scheduleLoop ::
  "(Tick \<Rightarrow> bool) \<Rightarrow> Seconds \<Rightarrow> Scheduler \<Rightarrow> (Scheduler \<times> Tick list) option" where
  "Scheduler_scheduleLoop cb currentTime s =
     (if \<not> s_callback s \<or> \<not> s_isRunning s then Some (s, [])
      else Scheduler_while cb (fl (currentTime + lookahead (s_config s))) s [])"

text \<open>
  The polling timer: \<^verbatim>\<open>_scheduleLoop\<close> runs once for each reading of the audio
  clock in \<open>nows\<close>, whatever those readings are; the calls of the callback are
  collected in order. The timer goes on after a pass that ended in an exception.
\<close>

fun Scheduler_polls ::
  "(Tick \<Rightarrow> bool) \<Rightarrow> Seconds list \<Rightarrow> Scheduler \<Rightarrow> (Scheduler \<times> Tick list) option" where
  "Scheduler_polls cb [] s = Some (s, [])"
| "Scheduler_polls cb (now # nows) s =
     (case Scheduler_scheduleLoop cb now s of
        None \<Rightarrow> None
      | Some (s', ticks) \<Rightarrow>
          (case Scheduler_polls cb nows s' of
             None \<Rightarrow> None
           | Some (s'', ticks') \<Rightarrow> Some (s'', ticks @ ticks')))"

subsection \<open>Sequencer.ts\<close>

record SequencerConfig =
  stepsPerBeat :: rat
  beatsPerBar :: rat

text \<open>\<^verbatim>\<open>TransportState\<close>, a union discriminated by \<^verbatim>\<open>status\<close>:
  \<open>Playing startBeat startTime\<close>, \<open>Paused pausedBeat\<close>.\<close>

datatype TransportState = Stopped | Playing BeatTime Seconds | Paused BeatTime

datatype PlaybackStatus = stopped | playing | paused

fun status :: "TransportState \<Rightarrow> PlaybackStatus" where
  "status Stopped = stopped"
| "status (Playing startBeat startTime') = playing"
| "status (Paused pausedBeat) = paused"

text \<open>
  The private fields of the class. The Scheduler the Sequencer drives is part of its
  state. \<open>currentStep\<close> is a number that is an integer or NaN (\<open>None\<close>).
  \<open>soloedTracks\<close> is the \<^verbatim>\<open>Set<TrackId>\<close>.
\<close>

record Sequencer =
  scheduler :: Scheduler
  pattern :: "Pattern option"
  transportState :: TransportState
  currentStep :: "int option"
  config :: SequencerConfig
  soloedTracks :: "TrackId fset"

definition DEFAULT_CONFIG :: SequencerConfig where
  "DEFAULT_CONFIG = \<lparr>stepsPerBeat = 4, beatsPerBar = 4\<rparr>"

definition Sequencer_new :: "Scheduler \<Rightarrow> SequencerConfig \<Rightarrow> Sequencer" where
  "Sequencer_new sched cfg =
     \<lparr>scheduler = sched, pattern = None, transportState = Stopped,
      currentStep = Some 0, config = cfg, soloedTracks = {||}\<rparr>"

definition Sequencer_setPattern :: "Pattern \<Rightarrow> Sequencer \<Rightarrow> Sequencer" where
  "Sequencer_setPattern p st = st\<lparr>pattern := Some p, currentStep := Some 0\<rparr>"

definition Sequencer_setTempo :: "BPM \<Rightarrow> Sequencer \<Rightarrow> Sequencer" where
  "Sequencer_setTempo newTempo st =
     st\<lparr>scheduler := Scheduler_setTempo newTempo (scheduler st)\<rparr>"

text \<open>\<open>engineTime\<close> is \<^verbatim>\<open>this._audioEngine.currentTime\<close>; \<open>ctxTime\<close> and
  \<open>iid\<close> are handed to \<open>Scheduler_start\<close>.\<close>

definition Sequencer_play :: "Seconds \<Rightarrow> Seconds \<Rightarrow> nat \<Rightarrow> Sequencer \<Rightarrow> Sequencer" where
  "Sequencer_play engineTime ctxTime iid st =
     (if status (transportState st) = playing then st
      else case pattern st of
        None \<Rightarrow> st
      | Some p \<Rightarrow>
          st\<lparr>transportState := Playing 0 engineTime,
             scheduler := Scheduler_start ctxTime iid (scheduler st)\<rparr>)"

definition Sequencer_pause :: "Sequencer \<Rightarrow> Sequencer" where
  "Sequencer_pause st =
     (if status (transportState st) \<noteq> playing then st
      else st\<lparr>transportState := Paused (s_currentBeat (scheduler st)),
              scheduler := Scheduler_stop (scheduler st)\<rparr>)"

definition Sequencer_stop :: "Sequencer \<Rightarrow> Sequencer" where
  "Sequencer_stop st =
     st\<lparr>transportState := Stopped,
        scheduler := Scheduler_stop (scheduler st),
        currentStep := Some 0\<rparr>"

definition Sequencer_toggleMute :: "Date \<Rightarrow> TrackId \<Rightarrow> Sequencer \<Rightarrow> Sequencer" where
  "Sequencer_toggleMute now trackId st =
     (case pattern st of
        None \<Rightarrow> st
      | Some p \<Rightarrow>
          st\<lparr>pattern := Some (p\<lparr>tracks :=
                map (\<lambda>track. if id_t track = trackId
                              then track\<lparr>muted := \<not> muted track\<rparr> else track) (tracks p),
              modifiedAt := now\<rparr>)\<rparr>)"

definition Sequencer_toggleSolo :: "Date \<Rightarrow> TrackId \<Rightarrow> Sequencer \<Rightarrow> Sequencer" where
  "Sequencer_toggleSolo now trackId st =
     (case pattern st of
        None \<Rightarrow> st
      | Some p \<Rightarrow>
          (case find (\<lambda>t. id_t t = trackId) (tracks p) of
             None \<Rightarrow> st
           | Some track \<Rightarrow>
               st\<lparr>soloedTracks :=
                    (if soloed track then soloedTracks st |-| {|trackId|}
                     else finsert trackId (soloedTracks st)),
                  pattern := Some (p\<lparr>tracks :=
                    map (\<lambda>t. if id_t t = trackId
                              then t\<lparr>soloed := \<not> soloed t\<rparr> else t) (tracks p),
                    modifiedAt := now\<rparr>)\<rparr>))"

definition Sequencer_setTrackVolume ::
  "Date \<Rightarrow> TrackId \<Rightarrow> GainValue \<Rightarrow> Sequencer \<Rightarrow> Sequencer" where
  "Sequencer_setTrackVolume now trackId v st =
     (case pattern st of
        None \<Rightarrow> st
      | Some p \<Rightarrow>
          st\<lparr>pattern := Some (p\<lparr>tracks :=
                map (\<lambda>track. if id_t track = trackId
                              then track\<lparr>volume := v\<rparr> else track) (tracks p),
              modifiedAt := now\<rparr>)\<rparr>)"

definition Sequencer_toggleStep ::
  "Date \<Rightarrow> TrackId \<Rightarrow> StepIndex \<Rightarrow> Sequencer \<Rightarrow> Sequencer" where
  "Sequencer_toggleStep now trackId stepIndex st =
     (case pattern st of
        None \<Rightarrow> st
      | Some p \<Rightarrow>
          st\<lparr>pattern := Some (p\<lparr>tracks :=
                map (\<lambda>track.
                  if id_t track \<noteq> trackId then track
                  else track\<lparr>steps :=
                         map_idx (\<lambda>idx step.
                           if int idx = stepIndex then step\<lparr>active := \<not> active step\<rparr>
                           else step) 0 (steps track)\<rparr>) (tracks p),
              modifiedAt := now\<rparr>)\<rparr>)"

definition Sequencer_setStepVelocity ::
  "Date \<Rightarrow> TrackId \<Rightarrow> StepIndex \<Rightarrow> GainValue \<Rightarrow> Sequencer \<Rightarrow> Sequencer" where
  "Sequencer_setStepVelocity now trackId stepIndex v st =
     (case pattern st of
        None \<Rightarrow> st
      | Some p \<Rightarrow>
          st\<lparr>pattern := Some (p\<lparr>tracks :=
                map (\<lambda>track.
                  if id_t track \<noteq> trackId then track
                  else track\<lparr>steps :=
                         map_idx (\<lambda>idx step.
                           if int idx = stepIndex then step\<lparr>velocity := v\<rparr>
                           else step) 0 (steps track)\<rparr>) (tracks p),
              modifiedAt := now\<rparr>)\<rparr>)"

definition Sequencer_destroy :: "Sequencer \<Rightarrow> Sequencer" where
  "Sequencer_destroy st = (Sequencer_stop st)\<lparr>pattern := None, soloedTracks := {||}\<rparr>"

text \<open>
  JavaScript's \<^verbatim>\<open>%\<close> on integer-valued numbers: the remainder takes the sign of
  the dividend, and a zero divisor gives NaN (\<open>None\<close>). The sign of a zero result
  is not kept (\<^verbatim>\<open>-0\<close> addresses the same array element as \<^verbatim>\<open>0\<close>).
\<close>

definition js_rem :: "int \<Rightarrow> int \<Rightarrow> int option" where
  "js_rem a b = (if b = 0 then None else Some (sgn a * (\<bar>a\<bar> mod \<bar>b\<bar>)))"

text \<open>\<^verbatim>\<open>track.steps[step]\<close>: an index that is NaN, negative or past the end reads
  \<^verbatim>\<open>undefined\<close> (\<open>None\<close>).\<close>

definition stepAt :: "Step list \<Rightarrow> int option \<Rightarrow> Step option" where
  "stepAt xs step =
     (case step of
        None \<Rightarrow> None
      | Some k \<Rightarrow> if 0 \<le> k \<and> k < int (length xs) then Some (xs ! nat k) else None)"

text \<open>
  The \<^verbatim>\<open>for (const track of this._pattern.tracks)\<close> loop of
  \<^verbatim>\<open>_onSchedulerTick\<close>. Its result is the sequence of \<^verbatim>\<open>playVoice\<close> calls, each
  paired with the track of the iteration that made it; a \<^verbatim>\<open>continue\<close> goes on
  with the rest of the tracks.
\<close>

fun processTracks ::
  "bool \<Rightarrow> int option \<Rightarrow> Seconds \<Rightarrow> Track list \<Rightarrow> (Track \<times> VoiceConfig) list" where
  "processTracks hasSoloedTracks step time [] = []"
| "processTracks hasSoloedTracks step time (track # rest) =
     (if muted track then processTracks hasSoloedTracks step time rest
      else if hasSoloedTracks \<and> \<not> soloed track
        then processTracks hasSoloedTracks step time rest
      else case stepAt (steps track) step of
        None \<Rightarrow> processTracks hasSoloedTracks step time rest
      | Some stepData \<Rightarrow>
          if \<not> active stepData then processTracks hasSoloedTracks step time rest
          else (track,
                \<lparr>sampleId_v = sampleId track, startTime = time,
                 gain = gainValue (volume track * velocity stepData)\<rparr>)
               # processTracks hasSoloedTracks step time rest)"

definition Sequencer_onSchedulerTick ::
  "Seconds \<Rightarrow> BeatTime \<Rightarrow> Sequencer \<Rightarrow> Sequencer \<times> (Track \<times> VoiceConfig) list" where
  "Sequencer_onSchedulerTick time beat st =
     (case pattern st of
        None \<Rightarrow> (st, [])
      | Some p \<Rightarrow>
          if status (transportState st) \<noteq> playing then (st, [])
          else
            let stepInSequence = \<lfloor>beat * stepsPerBeat (config st)\<rfloor>;
                step = js_rem stepInSequence (length_p p);
                hasSoloedTracks = (0 < fcard (soloedTracks st))
            in (st\<lparr>currentStep := step\<rparr>,
                processTracks hasSoloedTracks step time (tracks p)))"

subsection \<open>The pattern of the test suite\<close>

text \<open>
  The fixture of \<^verbatim>\<open>Sequencer.test.ts\<close>: a kick on steps 0 and 8, a snare on
  steps 4 and 12, sixteen steps each, built by \<^verbatim>\<open>createTrack\<close> and
  \<^verbatim>\<open>createPattern\<close> (volume 0.8, not muted, not soloed, length 16, 4/4), and a
  Sequencer on a Scheduler at 120 BPM with the default configuration.
\<close>

definition kickSteps :: "Step list" where
  "kickSteps = map (\<lambda>i. \<lparr>active = (i = 0 \<or> i = 8), velocity = 9 / 10\<rparr>) [0..<16]"

definition snareSteps :: "Step list" where
  "snareSteps = map (\<lambda>i. \<lparr>active = (i = 4 \<or> i = 12), velocity = 8 / 10\<rparr>) [0..<16]"

definition kickTrack :: Track where
  "kickTrack =
     \<lparr>id_t = ''kick'', name_t = ''Kick'', sampleId = ''kick'', steps = kickSteps,
      volume = 8 / 10, muted = False, soloed = False, color = ''#6366f1''\<rparr>"

definition snareTrack :: Track where
  "snareTrack =
     \<lparr>id_t = ''snare'', name_t = ''Snare'', sampleId = ''snare'', steps = snareSteps,
      volume = 8 / 10, muted = False, soloed = False, color = ''#6366f1''\<rparr>"

definition testPattern :: Pattern where
  "testPattern =
     \<lparr>id_p = ''test'', name_p = ''Test Pattern'', tracks = [kickTrack, snareTrack],
      length_p = 16, timeSignature = \<lparr>numerator = 4, denominator = 4\<rparr>,
      createdAt = 0, modifiedAt = 0\<rparr>"

definition testScheduler :: Scheduler where
  "testScheduler = Scheduler_new 120 \<lparr>lookahead = 1 / 10, scheduleInterval = 25\<rparr>"

definition testSequencer :: Sequencer where
  "testSequencer = Sequencer_new testScheduler DEFAULT_CONFIG"

text \<open>A Scheduler at 200 BPM with the default lookahead, the double nearest to 0.1,
  after \<^verbatim>\<open>start\<close> at audio time 0; and a callback that always returns.\<close>

definition fastScheduler :: Scheduler where
  "fastScheduler =
     Scheduler_start 0 1 (Scheduler_new 200 \<lparr>lookahead = fl (1 / 10), scheduleInterval = 25\<rparr>)"

definition returns :: "Tick \<Rightarrow> bool" where
  "returns tick = True"

text \<open>The fixture after \<^verbatim>\<open>setPattern(testPattern)\<close>.\<close>

definition loadedSequencer :: Sequencer where
  "loadedSequencer = Sequencer_setPattern testPattern testSequencer"

text \<open>The fixture after \<^verbatim>\<open>setPattern(testPattern); play()\<close>.\<close>

definition playingSequencer :: Sequencer where
  "playingSequencer = Sequencer_play 0 0 1 (Sequencer_setPattern testPattern testSequencer)"

text \<open>The fixture after \<^verbatim>\<open>setPattern(testPattern); toggleMute('kick');
  toggleSolo('kick'); play()\<close>: the kick is muted and soloed.\<close>

definition mutedSoloSequencer :: Sequencer where
  "mutedSoloSequencer =
     Sequencer_play 0 0 1
       (Sequencer_toggleSolo 2 ''kick''
         (Sequencer_toggleMute 1 ''kick'' (Sequencer_setPattern testPattern testSequencer)))"

text \<open>A pattern of length 16 whose first track has only four steps.\<close>

definition shortTrack :: Track where
  "shortTrack = kickTrack\<lparr>id_t := ''short'', steps := take 4 kickSteps\<rparr>"

definition shortSequencer :: Sequencer where
  "shortSequencer =
     Sequencer_play 0 0 1
       (Sequencer_setPattern (testPattern\<lparr>tracks := [shortTrack, snareTrack]\<rparr>) testSequencer)"

text \<open>The fixture after \<^verbatim>\<open>setPattern(testPattern); toggleSolo('kick');
  setPattern(testPattern)\<close>: the pattern is loaded again while the kick is soloed.\<close>

definition reloadedSequencer :: Sequencer where
  "reloadedSequencer =
     Sequencer_setPattern testPattern (Sequencer_toggleSolo 1 ''kick'' loadedSequencer)"

text \<open>
  The pattern a Sequencer holds after \<^verbatim>\<open>setPattern(testPattern);
  toggleSolo('kick')\<close>, as its \<^verbatim>\<open>pattern\<close> getter returns it, and the fixture
  of a new Sequencer after \<^verbatim>\<open>setPattern\<close> of that pattern,
  \<^verbatim>\<open>toggleSolo('snare')\<close> and \<^verbatim>\<open>play()\<close>.
\<close>

definition soloedKickPattern :: Pattern where
  "soloedKickPattern =
     testPattern\<lparr>tracks := [kickTrack\<lparr>soloed := True\<rparr>, snareTrack], modifiedAt := 1\<rparr>"

definition desyncSequencer :: Sequencer where
  "desyncSequencer =
     Sequencer_play 0 0 1
       (Sequencer_toggleSolo 2 ''snare'' (Sequencer_setPattern soloedKickPattern testSequencer))"

subsection \<open>When the loop body reaches \<^verbatim>\<open>playVoice\<close>\<close>

text \<open>
  The three guards of the loop body, read together: a track fires on a step when it
  is not muted, is soloed if any solo is on, and has an active step there.
\<close>

definition fires :: "bool \<Rightarrow> int option \<Rightarrow> Track \<Rightarrow> bool" where
  "fires hasSoloedTracks step t =
     (\<not> muted t \<and> (hasSoloedTracks \<longrightarrow> soloed t) \<and>
      (case stepAt (steps t) step of None \<Rightarrow> False | Some s \<Rightarrow> active s))"

subsection \<open>The sequence of ticks\<close>

text \<open>
  \<open>sixteenth b\<close> is the length of a sixteenth note at tempo \<open>b\<close> as
  \<^verbatim>\<open>_advanceNote\<close> computes it. \<open>tickAt s i\<close> is the time and beat of the Scheduler
  after \<open>i\<close> advances from the state \<open>s\<close>: a sequence fixed by \<open>s\<close> alone.
\<close>

definition sixteenth :: "BPM \<Rightarrow> Seconds" where
  "sixteenth b = fl (fl (60 / b) / 4)"

definition tickAt :: "Scheduler \<Rightarrow> nat \<Rightarrow> Tick" where
  "tickAt s i =
     (s_nextNoteTime ((Scheduler_advanceNote ^^ i) s),
      s_currentBeat ((Scheduler_advanceNote ^^ i) s))"

subsection \<open>The solo set as a mirror of the pattern\<close>

text \<open>
  The solo set mirrors the pattern: it holds exactly the ids of the tracks of the held
  pattern whose \<open>soloed\<close> flag is set, and is empty when no pattern is held.
\<close>

definition soloSynced :: "Sequencer \<Rightarrow> bool" where
  "soloSynced st =
     (soloedTracks st =
        (case pattern st of
           None \<Rightarrow> {||}
         | Some p \<Rightarrow> fset_of_list (map id_t (filter soloed (tracks p)))))"

section \<open>Properties\<close>

subsection \<open>Auxiliary facts about the track loop and the tick handler\<close>

lemma map_idx_toggle_twice:
  "map_idx (\<lambda>idx step. if int idx = i then step\<lparr>active := \<not> active step\<rparr> else step) k
     (map_idx (\<lambda>idx step. if int idx = i then step\<lparr>active := \<not> active step\<rparr> else step) k xs)
   = xs"
  by (induction xs arbitrary: k) auto

lemma processTracks_append_True:
  "processTracks True step time (xs @ ys) =
     processTracks True step time xs @ processTracks True step time ys"
  by (induction xs) (simp_all split: option.splits)

lemma processTracks_append_False:
  "processTracks False step time (xs @ ys) =
     processTracks False step time xs @ processTracks False step time ys"
  by (induction xs) (simp_all split: option.splits)

lemma processTracks_append:
  "processTracks h step time (xs @ ys) =
     processTracks h step time xs @ processTracks h step time ys"
  by (cases h) (simp_all add: processTracks_append_True processTracks_append_False)

lemma processTracks_Cons_fires:
  "fires h step a \<Longrightarrow>
   processTracks h step time (a # ts) =
     (a, \<lparr>sampleId_v = sampleId a, startTime = time,
          gain = gainValue (volume a * velocity (the (stepAt (steps a) step)))\<rparr>)
     # processTracks h step time ts"
  by (cases h; cases "stepAt (steps a) step") (simp_all add: fires_def)

lemma processTracks_Cons_skip:
  "\<not> fires h step a \<Longrightarrow> processTracks h step time (a # ts) = processTracks h step time ts"
  by (cases h; cases "stepAt (steps a) step") (auto simp add: fires_def)

text \<open>Which calls the loop makes: one for every track that fires, with its sample, the
  scheduled time and the clamped product of volume and velocity.\<close>

lemma processTracks_mem:
  "(t, v) \<in> set (processTracks h step time ts) \<longleftrightarrow>
     t \<in> set ts \<and> fires h step t \<and>
     v = \<lparr>sampleId_v = sampleId t, startTime = time,
          gain = gainValue (volume t * velocity (the (stepAt (steps t) step)))\<rparr>"
proof (induction ts)
  case Nil
  show ?case by simp
next
  case (Cons a ts)
  show ?case
  proof (cases "fires h step a")
    case True
    show ?thesis
      unfolding processTracks_Cons_fires[OF True] set_simps insert_iff Cons.IH prod.inject
      using True by blast
  next
    case False
    show ?thesis
      unfolding processTracks_Cons_skip[OF False] Cons.IH set_simps insert_iff
      using False by blast
  qed
qed

lemma tick_playing:
  "pattern st = Some p \<Longrightarrow> status (transportState st) = playing \<Longrightarrow>
   Sequencer_onSchedulerTick time beat st =
     (st\<lparr>currentStep := js_rem \<lfloor>beat * stepsPerBeat (config st)\<rfloor> (length_p p)\<rparr>,
      processTracks (0 < fcard (soloedTracks st))
        (js_rem \<lfloor>beat * stepsPerBeat (config st)\<rfloor> (length_p p)) time (tracks p))"
  by (simp add: Sequencer_onSchedulerTick_def Let_def)

lemma tick_emitted_mem:
  "(t, v) \<in> set (snd (Sequencer_onSchedulerTick time beat st)) \<Longrightarrow>
   \<exists>p. pattern st = Some p \<and> status (transportState st) = playing \<and>
     (t, v) \<in> set (processTracks (0 < fcard (soloedTracks st))
        (js_rem \<lfloor>beat * stepsPerBeat (config st)\<rfloor> (length_p p)) time (tracks p))"
  by (cases "pattern st"; cases "status (transportState st) = playing")
     (simp_all add: Sequencer_onSchedulerTick_def Let_def)

lemma js_rem_nonneg: "0 \<le> a \<Longrightarrow> 0 < b \<Longrightarrow> js_rem a b = Some (a mod b)"
  by (cases "a = 0") (simp_all add: js_rem_def)

subsection \<open>Toggling a step twice\<close>

text \<open>
  Claim C8. Applying the pattern model's \<open>toggleStep\<close> twice with the same track id
  and step index gives back the pattern in every field but \<open>modifiedAt\<close>, which holds
  the time of the second call. This holds for every pattern, track id and index.
\<close>

theorem toggleStep_twice:
  "toggleStep now2 (toggleStep now1 p t i) t i = p\<lparr>modifiedAt := now2\<rparr>"
proof -
  define f :: "Track \<Rightarrow> Track" where "f = (\<lambda>track. if id_t track = t
           then track\<lparr>steps :=
                  map_idx (\<lambda>idx step.
                    if int idx = i then step\<lparr>active := \<not> active step\<rparr> else step)
                    0 (steps track)\<rparr>
           else track)"
  have ff: "f (f x) = x" for x
    by (cases "id_t x = t") (simp_all add: f_def map_idx_toggle_twice)
  have mm: "f \<circ> f = id"
    by (rule ext) (simp add: ff)
  have "toggleStep now2 (toggleStep now1 p t i) t i
      = p\<lparr>tracks := map f (map f (tracks p)), modifiedAt := now2\<rparr>"
    unfolding toggleStep_def f_def by simp
  then show ?thesis by (simp add: mm)
qed

text \<open>The Sequencer's own \<open>toggleStep\<close> behaves alike on the pattern it holds.\<close>

lemma Sequencer_toggleStep_twice:
  "Sequencer_toggleStep now2 trackId i (Sequencer_toggleStep now1 trackId i st) =
     (case pattern st of None \<Rightarrow> st | Some p \<Rightarrow> st\<lparr>pattern := Some (p\<lparr>modifiedAt := now2\<rparr>)\<rparr>)"
proof (cases "pattern st")
  case None
  then show ?thesis by (simp add: Sequencer_toggleStep_def)
next
  case (Some p)
  define f :: "Track \<Rightarrow> Track" where "f = (\<lambda>track. if id_t track \<noteq> trackId then track
           else track\<lparr>steps :=
                  map_idx (\<lambda>idx step.
                    if int idx = i then step\<lparr>active := \<not> active step\<rparr> else step)
                    0 (steps track)\<rparr>)"
  have ff: "f (f x) = x" for x
    by (cases "id_t x = trackId") (simp_all add: f_def map_idx_toggle_twice)
  have mm: "f \<circ> f = id"
    by (rule ext) (simp add: ff)
  have "Sequencer_toggleStep now2 trackId i (Sequencer_toggleStep now1 trackId i st)
      = st\<lparr>pattern := Some (p\<lparr>tracks := map f (map f (tracks p)), modifiedAt := now2\<rparr>)\<rparr>"
    unfolding Sequencer_toggleStep_def f_def using Some by simp
  then show ?thesis using Some by (simp add: mm)
qed

subsection \<open>Ticks outside playback\<close>

text \<open>
  Claim C9. When the transport state is not playing (stopped or paused), the tick
  handler makes no \<^verbatim>\<open>playVoice\<close> call and leaves the whole state, the current
  step with it, as it was.
\<close>

theorem tick_not_playing:
  "status (transportState st) \<noteq> playing \<Longrightarrow>
   Sequencer_onSchedulerTick time beat st = (st, [])"
  by (simp add: Sequencer_onSchedulerTick_def split: option.splits)

theorem tick_not_playing_witness:
  "status (transportState
     (Sequencer_pause (Sequencer_play 0 0 1 (Sequencer_setPattern testPattern testSequencer))))
     \<noteq> playing \<and>
   Sequencer_onSchedulerTick 0 0
     (Sequencer_pause (Sequencer_play 0 0 1 (Sequencer_setPattern testPattern testSequencer)))
   = (Sequencer_pause (Sequencer_play 0 0 1 (Sequencer_setPattern testPattern testSequencer)),
      [])"
proof -
  have h: "status (transportState
     (Sequencer_pause (Sequencer_play 0 0 1 (Sequencer_setPattern testPattern testSequencer))))
     \<noteq> playing"
    by code_simp
  from tick_not_playing[OF h] h show ?thesis by blast
qed

subsection \<open>Mute precedence\<close>

text \<open>
  Claim C5. A muted track is never triggered: whatever the state, the tick and the
  track's other flags (soloed or not, the step active or not), the handler makes no
  \<^verbatim>\<open>playVoice\<close> call for a track whose \<open>muted\<close> flag is set. The mute test is the
  first guard of the loop body and does not look at solo.
\<close>

theorem mute_precedence:
  "muted A \<Longrightarrow> (A, v) \<notin> set (snd (Sequencer_onSchedulerTick time beat st))"
  using tick_emitted_mem[of A v time beat st] by (auto simp: processTracks_mem fires_def)

theorem mute_precedence_witness:
  "pattern mutedSoloSequencer =
     Some (testPattern\<lparr>tracks := [kickTrack\<lparr>muted := True, soloed := True\<rparr>, snareTrack],
                       modifiedAt := 2\<rparr>) \<and>
   status (transportState mutedSoloSequencer) = playing \<and>
   muted (kickTrack\<lparr>muted := True, soloed := True\<rparr>) \<and>
   soloed (kickTrack\<lparr>muted := True, soloed := True\<rparr>) \<and>
   stepAt (steps (kickTrack\<lparr>muted := True, soloed := True\<rparr>)) (Some 0)
     = Some \<lparr>active = True, velocity = 9 / 10\<rparr> \<and>
   currentStep (fst (Sequencer_onSchedulerTick 0 0 mutedSoloSequencer)) = Some 0 \<and>
   (kickTrack\<lparr>muted := True, soloed := True\<rparr>,
    \<lparr>sampleId_v = ''kick'', startTime = 0, gain = 18 / 25\<rparr>)
     \<notin> set (snd (Sequencer_onSchedulerTick 0 0 mutedSoloSequencer))"
proof -
  have m: "muted (kickTrack\<lparr>muted := True, soloed := True\<rparr>)" by simp
  have e: "pattern mutedSoloSequencer =
     Some (testPattern\<lparr>tracks := [kickTrack\<lparr>muted := True, soloed := True\<rparr>, snareTrack],
                       modifiedAt := 2\<rparr>)" by code_simp
  have p: "status (transportState mutedSoloSequencer) = playing" by code_simp
  have s: "stepAt (steps (kickTrack\<lparr>muted := True, soloed := True\<rparr>)) (Some 0)
     = Some \<lparr>active = True, velocity = 9 / 10\<rparr>" by code_simp
  have c: "currentStep (fst (Sequencer_onSchedulerTick 0 0 mutedSoloSequencer)) = Some 0"
    by code_simp
  show ?thesis
    using mute_precedence[OF m, of "\<lparr>sampleId_v = ''kick'', startTime = 0, gain = 18 / 25\<rparr>"
        0 0 mutedSoloSequencer] m e p s c
    by simp
qed

subsection \<open>Loop wrap\<close>

text \<open>
  Claim C7. On a tick at beat \<open>b\<close> while playing a pattern of length \<open>L\<close>, the step
  addressed in every track is \<open>\<lfloor>b * stepsPerBeat\<rfloor> mod L\<close>, and \<open>currentStep\<close> is set
  to it. Beats delivered by the Scheduler are not negative and a length is positive,
  where JavaScript's \<^verbatim>\<open>%\<close> is the mathematical \<open>mod\<close>. A pattern of length 16 at
  beat 4 (step 16 of the sequence) gives \<open>currentStep = 0\<close>.
\<close>

theorem loop_wrap:
  assumes "pattern st = Some p" and "status (transportState st) = playing"
    and "0 \<le> beat * stepsPerBeat (config st)" and "0 < length_p p"
  shows "Sequencer_onSchedulerTick time beat st =
     (st\<lparr>currentStep := Some (\<lfloor>beat * stepsPerBeat (config st)\<rfloor> mod length_p p)\<rparr>,
      processTracks (0 < fcard (soloedTracks st))
        (Some (\<lfloor>beat * stepsPerBeat (config st)\<rfloor> mod length_p p)) time (tracks p))"
proof -
  have "0 \<le> \<lfloor>beat * stepsPerBeat (config st)\<rfloor>" using assms(3) by simp
  then have "js_rem \<lfloor>beat * stepsPerBeat (config st)\<rfloor> (length_p p)
      = Some (\<lfloor>beat * stepsPerBeat (config st)\<rfloor> mod length_p p)"
    using assms(4) by (rule js_rem_nonneg)
  then show ?thesis using tick_playing[OF assms(1,2), of time beat] by simp
qed

theorem loop_wrap_witness:
  "pattern playingSequencer = Some testPattern \<and>
   status (transportState playingSequencer) = playing \<and>
   0 \<le> 4 * stepsPerBeat (config playingSequencer) \<and>
   length_p testPattern = 16 \<and>
   \<lfloor>4 * stepsPerBeat (config playingSequencer)\<rfloor> = 16 \<and>
   currentStep (fst (Sequencer_onSchedulerTick 0 4 playingSequencer)) = Some 0"
proof -
  have a: "pattern playingSequencer = Some testPattern" by code_simp
  have b: "status (transportState playingSequencer) = playing" by code_simp
  have c: "0 \<le> 4 * stepsPerBeat (config playingSequencer)" by code_simp
  have d: "0 < length_p testPattern" by code_simp
  have e: "length_p testPattern = 16" by code_simp
  have f: "\<lfloor>4 * stepsPerBeat (config playingSequencer)\<rfloor> = 16" by code_simp
  have "currentStep (fst (Sequencer_onSchedulerTick 0 4 playingSequencer)) = Some 0"
    unfolding loop_wrap[OF a b c d, of 0] by (simp add: e f)
  then show ?thesis using a b c e f by blast
qed

subsection \<open>Gain law\<close>

lemma gainValue_range: "0 \<le> gainValue x \<and> gainValue x \<le> 1"
  by (simp add: gainValue_def)

lemma gainValue_id: "0 \<le> x \<Longrightarrow> x \<le> 1 \<Longrightarrow> gainValue x = x"
  by (simp add: gainValue_def)

text \<open>
  Claim C6. On a playing tick, a track of the pattern that is not muted, is soloed if
  any solo is on, and whose step at the computed index is active, is triggered with
  gain \<open>volume * velocity\<close>, where volume and velocity are gain values (in \<open>[0,1]\<close>);
  no other gain is emitted for it, and every gain emitted on the tick lies in \<open>[0,1]\<close>.
\<close>

theorem gain_law:
  assumes "pattern st = Some p" and "status (transportState st) = playing"
    and "t \<in> set (tracks p)" and "\<not> muted t"
    and "0 < fcard (soloedTracks st) \<Longrightarrow> soloed t"
    and "stepAt (steps t) (js_rem \<lfloor>beat * stepsPerBeat (config st)\<rfloor> (length_p p)) = Some s"
    and "active s"
    and "0 \<le> volume t" and "volume t \<le> 1" and "0 \<le> velocity s" and "velocity s \<le> 1"
  shows "(t, \<lparr>sampleId_v = sampleId t, startTime = time, gain = volume t * velocity s\<rparr>)
           \<in> set (snd (Sequencer_onSchedulerTick time beat st)) \<and>
         (\<forall>v. (t, v) \<in> set (snd (Sequencer_onSchedulerTick time beat st)) \<longrightarrow>
              gain v = volume t * velocity s) \<and>
         (\<forall>x \<in> set (snd (Sequencer_onSchedulerTick time beat st)).
              0 \<le> gain (snd x) \<and> gain (snd x) \<le> 1)"
proof -
  let ?step = "js_rem \<lfloor>beat * stepsPerBeat (config st)\<rfloor> (length_p p)"
  let ?h = "0 < fcard (soloedTracks st)"
  have tick: "snd (Sequencer_onSchedulerTick time beat st) = processTracks ?h ?step time (tracks p)"
    using tick_playing[OF assms(1,2), of time beat] by simp
  have "0 \<le> volume t * velocity s" using assms(8,10) by simp
  moreover have "volume t * velocity s \<le> 1"
    using mult_mono[OF assms(9) assms(11)] assms(8,10) by simp
  ultimately have g: "gainValue (volume t * velocity s) = volume t * velocity s"
    by (rule gainValue_id)
  have f: "fires ?h ?step t"
    using assms(4,5,6,7) by (simp add: fires_def)
  have 1: "(t, \<lparr>sampleId_v = sampleId t, startTime = time, gain = volume t * velocity s\<rparr>)
           \<in> set (snd (Sequencer_onSchedulerTick time beat st))"
    unfolding tick processTracks_mem using assms(3,6) f g by simp
  have 2: "gain v = volume t * velocity s"
    if "(t, v) \<in> set (snd (Sequencer_onSchedulerTick time beat st))" for v
    using that unfolding tick processTracks_mem using assms(6) g by simp
  have 3: "0 \<le> gain (snd x) \<and> gain (snd x) \<le> 1"
    if "x \<in> set (snd (Sequencer_onSchedulerTick time beat st))" for x
  proof -
    obtain t' v' where x: "x = (t', v')" by (cases x)
    show ?thesis using that unfolding x tick processTracks_mem
      using gainValue_range by simp
  qed
  from 1 2 3 show ?thesis by blast
qed

theorem gain_law_witness:
  "pattern playingSequencer = Some testPattern \<and>
   status (transportState playingSequencer) = playing \<and>
   kickTrack \<in> set (tracks testPattern) \<and> \<not> muted kickTrack \<and>
   \<not> 0 < fcard (soloedTracks playingSequencer) \<and>
   stepAt (steps kickTrack)
     (js_rem \<lfloor>0 * stepsPerBeat (config playingSequencer)\<rfloor> (length_p testPattern))
     = Some \<lparr>active = True, velocity = 9 / 10\<rparr> \<and>
   volume kickTrack = 8 / 10 \<and>
   snd (Sequencer_onSchedulerTick 7 0 playingSequencer)
     = [(kickTrack, \<lparr>sampleId_v = ''kick'', startTime = 7, gain = 18 / 25\<rparr>)] \<and>
   (kickTrack, \<lparr>sampleId_v = sampleId kickTrack, startTime = 7,
                gain = volume kickTrack * velocity \<lparr>active = True, velocity = 9 / 10\<rparr>\<rparr>)
     \<in> set (snd (Sequencer_onSchedulerTick 7 0 playingSequencer))"
proof -
  have a: "pattern playingSequencer = Some testPattern" by code_simp
  have b: "status (transportState playingSequencer) = playing" by code_simp
  have c: "kickTrack \<in> set (tracks testPattern)" by code_simp
  have d: "\<not> muted kickTrack" by code_simp
  have e: "\<not> 0 < fcard (soloedTracks playingSequencer)" by code_simp
  have f: "stepAt (steps kickTrack)
     (js_rem \<lfloor>0 * stepsPerBeat (config playingSequencer)\<rfloor> (length_p testPattern))
     = Some \<lparr>active = True, velocity = 9 / 10\<rparr>" by code_simp
  have g: "volume kickTrack = 8 / 10" by code_simp
  have h: "snd (Sequencer_onSchedulerTick 7 0 playingSequencer)
     = [(kickTrack, \<lparr>sampleId_v = ''kick'', startTime = 7, gain = 18 / 25\<rparr>)]" by code_simp
  have e': "0 < fcard (soloedTracks playingSequencer) \<Longrightarrow> soloed kickTrack"
    using e by simp
  have v1: "0 \<le> volume kickTrack" and v2: "volume kickTrack \<le> 1"
    by code_simp+
  have w1: "0 \<le> velocity \<lparr>active = True, velocity = 9 / 10\<rparr>"
    and w2: "velocity \<lparr>active = True, velocity = 9 / 10\<rparr> \<le> 1"
    and w3: "active \<lparr>active = True, velocity = 9 / 10\<rparr>"
    by simp_all
  note gain_law[OF a b c d e' f w3 v1 v2 w1 w2, of 7]
  then have "(kickTrack, \<lparr>sampleId_v = sampleId kickTrack, startTime = 7,
                gain = volume kickTrack * velocity \<lparr>active = True, velocity = 9 / 10\<rparr>\<rparr>)
     \<in> set (snd (Sequencer_onSchedulerTick 7 0 playingSequencer))"
    by (rule conjunct1)
  then show ?thesis using a b c d e f g h by blast
qed

subsection \<open>A step past the end of a track's steps\<close>

lemma stepAt_past_end: "int (length xs) \<le> k \<Longrightarrow> stepAt xs (Some k) = None"
  by (simp add: stepAt_def)

lemma processTracks_skip_middle:
  assumes "\<not> fires h step t"
  shows "processTracks h step time (pre @ t # post) =
     processTracks h step time pre @ processTracks h step time post"
  unfolding processTracks_append processTracks_Cons_skip[OF assms] ..

text \<open>
  Claim C10. When the computed step index is past the end of a track's \<open>steps\<close>
  array, a playing tick skips that track and goes on: the calls made are those for
  the tracks before it followed by those for the tracks after it, none is for the
  track itself, and the calls are the same as if the track had an inactive step at
  that index. The handler is a total function: nothing is thrown.
\<close>

theorem missing_step_skipped:
  assumes "pattern st = Some p" and "status (transportState st) = playing"
    and "tracks p = pre @ t # post"
    and "js_rem \<lfloor>beat * stepsPerBeat (config st)\<rfloor> (length_p p) = Some k"
    and "int (length (steps t)) \<le> k"
  shows "snd (Sequencer_onSchedulerTick time beat st) =
           processTracks (0 < fcard (soloedTracks st)) (Some k) time pre @
           processTracks (0 < fcard (soloedTracks st)) (Some k) time post \<and>
         (\<forall>v. (t, v) \<notin> set (snd (Sequencer_onSchedulerTick time beat st))) \<and>
         (\<forall>ss s. stepAt ss (Some k) = Some s \<and> \<not> active s \<longrightarrow>
            snd (Sequencer_onSchedulerTick time beat
                  (st\<lparr>pattern := Some (p\<lparr>tracks := pre @ t\<lparr>steps := ss\<rparr> # post\<rparr>)\<rparr>))
            = snd (Sequencer_onSchedulerTick time beat st))"
proof -
  let ?h = "0 < fcard (soloedTracks st)"
  have none: "stepAt (steps t) (Some k) = None"
    using assms(5) by (rule stepAt_past_end)
  then have nf: "\<not> fires ?h (Some k) t" by (simp add: fires_def)
  have tick: "snd (Sequencer_onSchedulerTick time beat st) =
      processTracks ?h (Some k) time (tracks p)"
    using tick_playing[OF assms(1,2), of time beat] assms(4) by simp
  have 1: "snd (Sequencer_onSchedulerTick time beat st) =
           processTracks ?h (Some k) time pre @ processTracks ?h (Some k) time post"
    unfolding tick assms(3) using nf by (rule processTracks_skip_middle)
  have 2: "(t, v) \<notin> set (snd (Sequencer_onSchedulerTick time beat st))" for v
    unfolding tick processTracks_mem using nf by simp
  have 3: "snd (Sequencer_onSchedulerTick time beat
                  (st\<lparr>pattern := Some (p\<lparr>tracks := pre @ t\<lparr>steps := ss\<rparr> # post\<rparr>)\<rparr>))
            = snd (Sequencer_onSchedulerTick time beat st)"
    if "stepAt ss (Some k) = Some s \<and> \<not> active s" for ss s
  proof -
    let ?st = "st\<lparr>pattern := Some (p\<lparr>tracks := pre @ t\<lparr>steps := ss\<rparr> # post\<rparr>)\<rparr>"
    have nf': "\<not> fires ?h (Some k) (t\<lparr>steps := ss\<rparr>)"
      using that by (simp add: fires_def)
    have "snd (Sequencer_onSchedulerTick time beat ?st) =
        processTracks ?h (Some k) time (pre @ t\<lparr>steps := ss\<rparr> # post)"
      using tick_playing[of ?st "p\<lparr>tracks := pre @ t\<lparr>steps := ss\<rparr> # post\<rparr>" time beat]
        assms(2,4) by simp
    also have "\<dots> = processTracks ?h (Some k) time pre @ processTracks ?h (Some k) time post"
      using nf' by (rule processTracks_skip_middle)
    finally show ?thesis unfolding 1 .
  qed
  from 1 2 3 show ?thesis by blast
qed

theorem missing_step_skipped_witness:
  "pattern shortSequencer = Some (testPattern\<lparr>tracks := [shortTrack, snareTrack]\<rparr>) \<and>
   status (transportState shortSequencer) = playing \<and>
   js_rem \<lfloor>1 * stepsPerBeat (config shortSequencer)\<rfloor>
     (length_p (testPattern\<lparr>tracks := [shortTrack, snareTrack]\<rparr>)) = Some 4 \<and>
   int (length (steps shortTrack)) \<le> 4 \<and>
   snd (Sequencer_onSchedulerTick 0 1 shortSequencer) =
     processTracks (0 < fcard (soloedTracks shortSequencer)) (Some 4) 0 [] @
     processTracks (0 < fcard (soloedTracks shortSequencer)) (Some 4) 0 [snareTrack] \<and>
   snd (Sequencer_onSchedulerTick 0 1 shortSequencer) =
     [(snareTrack, \<lparr>sampleId_v = ''snare'', startTime = 0, gain = 16 / 25\<rparr>)]"
proof -
  have a: "pattern shortSequencer = Some (testPattern\<lparr>tracks := [shortTrack, snareTrack]\<rparr>)"
    by code_simp
  have b: "status (transportState shortSequencer) = playing" by code_simp
  have c: "tracks (testPattern\<lparr>tracks := [shortTrack, snareTrack]\<rparr>) = [] @ shortTrack # [snareTrack]"
    by simp
  have d: "js_rem \<lfloor>1 * stepsPerBeat (config shortSequencer)\<rfloor>
     (length_p (testPattern\<lparr>tracks := [shortTrack, snareTrack]\<rparr>)) = Some 4" by code_simp
  have e: "int (length (steps shortTrack)) \<le> 4" by code_simp
  have f: "snd (Sequencer_onSchedulerTick 0 1 shortSequencer) =
     [(snareTrack, \<lparr>sampleId_v = ''snare'', startTime = 0, gain = 16 / 25\<rparr>)]" by code_simp
  note missing_step_skipped[OF a b c d e, of 0]
  then have "snd (Sequencer_onSchedulerTick 0 1 shortSequencer) =
     processTracks (0 < fcard (soloedTracks shortSequencer)) (Some 4) 0 [] @
     processTracks (0 < fcard (soloedTracks shortSequencer)) (Some 4) 0 [snareTrack]"
    by (rule conjunct1)
  then show ?thesis using a b d e f by blast
qed

subsection \<open>Edits that name no track\<close>

lemma map_unknown_id:
  "trackId \<notin> id_t ` set ts \<Longrightarrow>
   map (\<lambda>track. if id_t track = trackId then f track else track) ts = ts"
  by (rule map_idI) auto

lemma map_unknown_id':
  "trackId \<notin> id_t ` set ts \<Longrightarrow>
   map (\<lambda>track. if id_t track \<noteq> trackId then track else f track) ts = ts"
  by (rule map_idI) auto

lemma find_unknown_id:
  "trackId \<notin> id_t ` set ts \<Longrightarrow> find (\<lambda>t. id_t t = trackId) ts = None"
  by (auto simp: find_None_iff)

text \<open>
  What the five edits do where they name no track. With no pattern loaded they leave
  the Sequencer as it is. With a pattern \<open>p\<close> loaded and a track id that none of its
  tracks has, \<open>toggleSolo\<close> returns early and leaves the Sequencer as it is, while
  \<open>toggleStep\<close>, \<open>setStepVelocity\<close>, \<open>setTrackVolume\<close> and \<open>toggleMute\<close> have no
  such guard: they leave tracks, steps and every other field as they are but store
  the current time in the pattern's \<open>modifiedAt\<close>.
\<close>

lemma unknown_track_edits:
  "(pattern st = None \<longrightarrow>
      Sequencer_toggleStep now trackId i st = st \<and>
      Sequencer_setStepVelocity now trackId i v st = st \<and>
      Sequencer_setTrackVolume now trackId v st = st \<and>
      Sequencer_toggleMute now trackId st = st \<and>
      Sequencer_toggleSolo now trackId st = st) \<and>
   (\<forall>p. pattern st = Some p \<and> trackId \<notin> id_t ` set (tracks p) \<longrightarrow>
      Sequencer_toggleStep now trackId i st = st\<lparr>pattern := Some (p\<lparr>modifiedAt := now\<rparr>)\<rparr> \<and>
      Sequencer_setStepVelocity now trackId i v st = st\<lparr>pattern := Some (p\<lparr>modifiedAt := now\<rparr>)\<rparr> \<and>
      Sequencer_setTrackVolume now trackId v st = st\<lparr>pattern := Some (p\<lparr>modifiedAt := now\<rparr>)\<rparr> \<and>
      Sequencer_toggleMute now trackId st = st\<lparr>pattern := Some (p\<lparr>modifiedAt := now\<rparr>)\<rparr> \<and>
      Sequencer_toggleSolo now trackId st = st)"
proof (intro conjI impI allI)
  fix p assume a: "pattern st = Some p \<and> trackId \<notin> id_t ` set (tracks p)"
  then have p: "pattern st = Some p" and u: "trackId \<notin> id_t ` set (tracks p)" by simp_all
  show "Sequencer_toggleStep now trackId i st = st\<lparr>pattern := Some (p\<lparr>modifiedAt := now\<rparr>)\<rparr>"
    by (simp add: Sequencer_toggleStep_def p map_unknown_id'[OF u])
  show "Sequencer_setStepVelocity now trackId i v st = st\<lparr>pattern := Some (p\<lparr>modifiedAt := now\<rparr>)\<rparr>"
    by (simp add: Sequencer_setStepVelocity_def p map_unknown_id'[OF u])
  show "Sequencer_setTrackVolume now trackId v st = st\<lparr>pattern := Some (p\<lparr>modifiedAt := now\<rparr>)\<rparr>"
    by (simp add: Sequencer_setTrackVolume_def p map_unknown_id[OF u])
  show "Sequencer_toggleMute now trackId st = st\<lparr>pattern := Some (p\<lparr>modifiedAt := now\<rparr>)\<rparr>"
    by (simp add: Sequencer_toggleMute_def p map_unknown_id[OF u])
  show "Sequencer_toggleSolo now trackId st = st"
    by (simp add: Sequencer_toggleSolo_def p find_unknown_id[OF u])
qed (simp_all add: Sequencer_toggleStep_def Sequencer_setStepVelocity_def
      Sequencer_setTrackVolume_def Sequencer_toggleMute_def Sequencer_toggleSolo_def)

text \<open>
  Claim C4. An edit with a track id that the held pattern does not have is to leave
  the Sequencer unchanged, the pattern's \<open>modifiedAt\<close> included. The code does not:
  on the test pattern, whose \<open>modifiedAt\<close> is 0, \<open>toggleMute\<close>, \<open>toggleStep\<close>,
  \<open>setStepVelocity\<close> and \<open>setTrackVolume\<close> with the id \<open>ghost\<close> at time 5 leave a
  pattern whose \<open>modifiedAt\<close> is 5.
\<close>

theorem unknown_track_not_noop:
  "pattern loadedSequencer = Some testPattern \<and>
   ''ghost'' \<notin> id_t ` set (tracks testPattern) \<and>
   modifiedAt testPattern = 0 \<and>
   pattern (Sequencer_toggleMute 5 ''ghost'' loadedSequencer)
     = Some (testPattern\<lparr>modifiedAt := 5\<rparr>) \<and>
   Sequencer_toggleMute 5 ''ghost'' loadedSequencer \<noteq> loadedSequencer \<and>
   Sequencer_toggleStep 5 ''ghost'' 3 loadedSequencer \<noteq> loadedSequencer \<and>
   Sequencer_setStepVelocity 5 ''ghost'' 3 (1 / 2) loadedSequencer \<noteq> loadedSequencer \<and>
   Sequencer_setTrackVolume 5 ''ghost'' (1 / 2) loadedSequencer \<noteq> loadedSequencer"
  by code_simp

subsection \<open>Operations that keep the solo set in step\<close>

text \<open>
  A new Sequencer has the solo set in step with the pattern, and every operation but
  \<open>setPattern\<close> keeps it so; for \<open>toggleSolo\<close> this needs the track ids of the
  pattern to be distinct, as the data model asks. \<open>setPattern\<close> keeps it exactly when
  the solo set already holds the ids of the soloed tracks of the new pattern.
\<close>

lemma soloed_ids_map_cong:
  "(\<And>x. x \<in> set ts \<Longrightarrow> soloed (f x) = soloed x \<and> id_t (f x) = id_t x) \<Longrightarrow>
   map id_t (filter soloed (map f ts)) = map id_t (filter soloed ts)"
  by (induction ts) simp_all

lemma soloSynced_new: "soloSynced (Sequencer_new sched cfg)"
  by (simp add: soloSynced_def Sequencer_new_def)

lemma soloSynced_toggleMute:
  "soloSynced st \<Longrightarrow> soloSynced (Sequencer_toggleMute now trackId st)"
  by (cases "pattern st")
     (simp_all add: soloSynced_def Sequencer_toggleMute_def soloed_ids_map_cong)

lemma soloSynced_setTrackVolume:
  "soloSynced st \<Longrightarrow> soloSynced (Sequencer_setTrackVolume now trackId v st)"
  by (cases "pattern st")
     (simp_all add: soloSynced_def Sequencer_setTrackVolume_def soloed_ids_map_cong)

lemma soloSynced_toggleStep:
  "soloSynced st \<Longrightarrow> soloSynced (Sequencer_toggleStep now trackId i st)"
  by (cases "pattern st")
     (simp_all add: soloSynced_def Sequencer_toggleStep_def soloed_ids_map_cong)

lemma soloSynced_setStepVelocity:
  "soloSynced st \<Longrightarrow> soloSynced (Sequencer_setStepVelocity now trackId i v st)"
  by (cases "pattern st")
     (simp_all add: soloSynced_def Sequencer_setStepVelocity_def soloed_ids_map_cong)

lemma soloSynced_play:
  "soloSynced st \<Longrightarrow> soloSynced (Sequencer_play engineTime ctxTime iid st)"
  by (cases "pattern st") (simp_all add: soloSynced_def Sequencer_play_def)

lemma soloSynced_pause: "soloSynced st \<Longrightarrow> soloSynced (Sequencer_pause st)"
  by (simp add: soloSynced_def Sequencer_pause_def)

lemma soloSynced_stop: "soloSynced st \<Longrightarrow> soloSynced (Sequencer_stop st)"
  by (simp add: soloSynced_def Sequencer_stop_def)

lemma soloSynced_setTempo: "soloSynced st \<Longrightarrow> soloSynced (Sequencer_setTempo b st)"
  by (simp add: soloSynced_def Sequencer_setTempo_def)

lemma soloSynced_destroy: "soloSynced (Sequencer_destroy st)"
  by (simp add: soloSynced_def Sequencer_destroy_def Sequencer_stop_def)

lemma soloSynced_tick:
  "soloSynced st \<Longrightarrow> soloSynced (fst (Sequencer_onSchedulerTick time beat st))"
  by (cases "pattern st"; cases "status (transportState st) = playing")
     (simp_all add: soloSynced_def Sequencer_onSchedulerTick_def Let_def)

lemma soloSynced_setPattern:
  "soloSynced (Sequencer_setPattern p st) \<longleftrightarrow>
   soloedTracks st = fset_of_list (map id_t (filter soloed (tracks p)))"
  by (simp add: soloSynced_def Sequencer_setPattern_def)

lemma find_Some_first:
  "find P xs = Some x \<Longrightarrow> x \<in> set xs \<and> P x"
  by (auto simp: find_Some_iff)

lemma soloed_ids_mem:
  "x \<in> set (map id_t (filter soloed (map g ts))) \<longleftrightarrow>
     (\<exists>y \<in> set ts. soloed (g y) \<and> id_t (g y) = x)"
  by (induction ts) auto

lemma toggled_soloed_ids:
  assumes uniq: "\<And>y. y \<in> set ts \<Longrightarrow> id_t y = trackId \<Longrightarrow> y = track"
    and tr: "track \<in> set ts" and ti: "id_t track = trackId"
  shows "(\<exists>y \<in> set ts. id_t y = x \<and>
            (if id_t y = trackId then \<not> soloed y else soloed y)) \<longleftrightarrow>
         (if x = trackId then \<not> soloed track
          else (\<exists>y \<in> set ts. id_t y = x \<and> soloed y))"
proof (cases "x = trackId")
  case True
  have "(\<exists>y \<in> set ts. id_t y = trackId \<and> (if id_t y = trackId then \<not> soloed y else soloed y))
      \<longleftrightarrow> \<not> soloed track"
  proof
    assume "\<exists>y \<in> set ts. id_t y = trackId \<and> (if id_t y = trackId then \<not> soloed y else soloed y)"
    then obtain y where y: "y \<in> set ts" "id_t y = trackId" "\<not> soloed y"
      by (metis (full_types))
    from uniq[OF y(1,2)] y(3) show "\<not> soloed track" by simp
  next
    assume "\<not> soloed track"
    with tr ti show "\<exists>y \<in> set ts. id_t y = trackId \<and>
        (if id_t y = trackId then \<not> soloed y else soloed y)"
      by (intro bexI[of _ track]) simp_all
  qed
  then show ?thesis using True by simp
next
  case False
  have eq: "(id_t y = x \<and> (if id_t y = trackId then \<not> soloed y else soloed y))
      = (id_t y = x \<and> soloed y)" for y
    using False by (cases "id_t y = x") simp_all
  have "(\<exists>y \<in> set ts. id_t y = x \<and>
            (if id_t y = trackId then \<not> soloed y else soloed y)) \<longleftrightarrow>
         (\<exists>y \<in> set ts. id_t y = x \<and> soloed y)"
    unfolding eq ..
  then show ?thesis by (simp only: False if_False)
qed

lemma toggled_solo_set_mem:
  "(if x = trackId then \<not> b
            else x \<in> set l) \<longleftrightarrow> x |\<in>| (if b then fset_of_list l |-| {|trackId|}
         else finsert trackId (fset_of_list l))"
  by (cases b; cases "x = trackId") (simp_all add: fset_of_list_elem)

lemma soloSynced_toggleSolo:
  assumes "soloSynced st"
    and "\<And>p. pattern st = Some p \<Longrightarrow> distinct (map id_t (tracks p))"
  shows "soloSynced (Sequencer_toggleSolo now trackId st)"
proof (cases "pattern st")
  case None
  then show ?thesis using assms(1) by (simp add: Sequencer_toggleSolo_def)
next
  case (Some p)
  note d = assms(2)[OF Some]
  note p = Some
  show ?thesis
  proof (cases "find (\<lambda>t. id_t t = trackId) (tracks p)")
    case None
    then show ?thesis using assms(1) p by (simp add: Sequencer_toggleSolo_def)
  next
    case (Some track)
    from find_Some_first[OF Some] have tr: "track \<in> set (tracks p)" and ti: "id_t track = trackId"
      by simp_all
    have uniq: "y = track" if "y \<in> set (tracks p)" "id_t y = trackId" for y
      using that tr ti d by (metis distinct_map inj_on_def)
    define g :: "Track \<Rightarrow> Track"
      where "g = (\<lambda>t. if id_t t = trackId then t\<lparr>soloed := \<not> soloed t\<rparr> else t)"
    have g_id: "id_t (g y) = id_t y" for y by (simp add: g_def)
    have g_soloed: "soloed (g y) = (if id_t y = trackId then \<not> soloed y else soloed y)" for y
      by (simp add: g_def)
    have S: "soloedTracks st = fset_of_list (map id_t (filter soloed (tracks p)))"
      using assms(1) p by (simp add: soloSynced_def)
    have old: "x \<in> set (map id_t (filter soloed (tracks p))) \<longleftrightarrow>
        (\<exists>y \<in> set (tracks p). id_t y = x \<and> soloed y)" for x
      using soloed_ids_mem[of x "\<lambda>y. y" "tracks p"] by (simp only: list.map_ident) blast
    have "fset_of_list (map id_t (filter soloed (map g (tracks p)))) =
        (if soloed track then soloedTracks st |-| {|trackId|}
         else finsert trackId (soloedTracks st))"
    proof (rule fset_eqI)
      fix x
      have "x |\<in>| fset_of_list (map id_t (filter soloed (map g (tracks p)))) \<longleftrightarrow>
          x \<in> set (map id_t (filter soloed (map g (tracks p))))"
        by (rule fset_of_list_elem)
      also have "\<dots> \<longleftrightarrow> (\<exists>y \<in> set (tracks p). soloed (g y) \<and> id_t (g y) = x)"
        by (rule soloed_ids_mem)
      also have "\<dots> \<longleftrightarrow> (\<exists>y \<in> set (tracks p). id_t y = x \<and>
            (if id_t y = trackId then \<not> soloed y else soloed y))"
        unfolding g_id g_soloed by blast
      also have "\<dots> \<longleftrightarrow> (if x = trackId then \<not> soloed track
            else (\<exists>y \<in> set (tracks p). id_t y = x \<and> soloed y))"
        using uniq tr ti by (rule toggled_soloed_ids)
      also have "\<dots> \<longleftrightarrow> (if x = trackId then \<not> soloed track
            else x \<in> set (map id_t (filter soloed (tracks p))))"
        unfolding old ..
      also have "\<dots> \<longleftrightarrow> x |\<in>| (if soloed track then soloedTracks st |-| {|trackId|}
         else finsert trackId (soloedTracks st))"
        unfolding S by (rule toggled_solo_set_mem)
      finally show "x |\<in>| fset_of_list (map id_t (filter soloed (map g (tracks p)))) \<longleftrightarrow>
          x |\<in>| (if soloed track then soloedTracks st |-| {|trackId|}
         else finsert trackId (soloedTracks st))" .
    qed
    then show ?thesis
      using p Some
      by (simp add: soloSynced_def Sequencer_toggleSolo_def g_def)
  qed
qed

text \<open>Where the solo set mirrors the flags and is not empty, every track a tick
  triggers is in the solo set.\<close>

lemma solo_isolation_synced:
  assumes "soloSynced st" and "0 < fcard (soloedTracks st)"
    and "(t, v) \<in> set (snd (Sequencer_onSchedulerTick time beat st))"
  shows "id_t t |\<in>| soloedTracks st"
proof -
  from tick_emitted_mem[OF assms(3)] obtain p where p: "pattern st = Some p"
    and m: "(t, v) \<in> set (processTracks (0 < fcard (soloedTracks st))
        (js_rem \<lfloor>beat * stepsPerBeat (config st)\<rfloor> (length_p p)) time (tracks p))"
    by blast
  from m have "t \<in> set (tracks p)" and "soloed t"
    using assms(2) by (simp_all add: processTracks_mem fires_def)
  then have "id_t t |\<in>| fset_of_list (map id_t (filter soloed (tracks p)))"
    by (auto simp: fset_of_list_elem)
  then show ?thesis using assms(1) p by (simp add: soloSynced_def)
qed

subsection \<open>The solo set after loading a pattern\<close>

text \<open>
  Claim C3. The solo set is to mirror the pattern's \<open>soloed\<close> flags after every
  operation. \<open>setPattern\<close> replaces the pattern and leaves the solo set as it was:
  loading the test pattern again while the kick is soloed leaves \<open>kick\<close> in the solo
  set although no track of the held pattern is soloed, and the next playing tick at
  beat 0 triggers nothing, where the same pattern on a new Sequencer triggers the
  kick.
\<close>

theorem setPattern_breaks_solo_sync:
  "soloSynced testSequencer \<and>
   soloSynced loadedSequencer \<and>
   soloSynced (Sequencer_toggleSolo 1 ''kick'' loadedSequencer) \<and>
   soloedTracks reloadedSequencer = {|''kick''|} \<and>
   pattern reloadedSequencer = Some testPattern \<and>
   filter soloed (tracks testPattern) = [] \<and>
   \<not> soloSynced reloadedSequencer \<and>
   snd (Sequencer_onSchedulerTick 0 0 (Sequencer_play 0 0 1 reloadedSequencer)) = [] \<and>
   snd (Sequencer_onSchedulerTick 0 0 playingSequencer)
     = [(kickTrack, \<lparr>sampleId_v = ''kick'', startTime = 0, gain = 18 / 25\<rparr>)]"
  by code_simp

text \<open>
  Claim C2. The handler tests the track's \<open>soloed\<close> flag, not membership in the solo
  set, and after \<open>setPattern\<close> the two can differ: a Sequencer that loads a pattern
  whose kick carries \<open>soloed\<close> and then solos the snare has the solo set
  \<open>{snare}\<close>, and the playing tick at beat 0 triggers the kick, a track outside
  the solo set.
\<close>

theorem solo_isolation_desync:
  "pattern (Sequencer_toggleSolo 1 ''kick'' loadedSequencer) = Some soloedKickPattern \<and>
   status (transportState desyncSequencer) = playing \<and>
   soloedTracks desyncSequencer = {|''snare''|} \<and>
   0 < fcard (soloedTracks desyncSequencer) \<and>
   ''kick'' |\<notin>| soloedTracks desyncSequencer \<and>
   snd (Sequencer_onSchedulerTick 0 0 desyncSequencer)
     = [(kickTrack\<lparr>soloed := True\<rparr>,
         \<lparr>sampleId_v = ''kick'', startTime = 0, gain = 18 / 25\<rparr>)]"
  by code_simp

subsection \<open>The tempo-to-interval law\<close>

text \<open>Rounding to a double moves a number by at most half a unit in the last place,
  that is by at most its size over \<open>2^53\<close>.\<close>

lemma round_half_even_error: "\<bar>of_int (round_half_even q) - q\<bar> \<le> 1 / 2"
proof -
  have "of_int \<lfloor>q\<rfloor> \<le> q" and "q < of_int \<lfloor>q\<rfloor> + 1" by linarith+
  then show ?thesis
    by (auto simp: round_half_even_def Let_def abs_le_iff)
qed

lemma exponent_le:
  assumes "x \<noteq> 0"
  shows "2 powi (exponent x) \<le> \<bar>x\<bar>"
proof -
  obtain p q where pq: "quotient_of \<bar>x\<bar> = (p, q)" by (cases "quotient_of \<bar>x\<bar>")
  have q: "0 < q" using quotient_of_denom_pos[OF pq] .
  have x: "\<bar>x\<bar> = of_int p / of_int q" using quotient_of_div[OF pq] .
  have "0 < \<bar>x\<bar>" using assms by simp
  then have p: "0 < p" using q unfolding x by (simp add: zero_less_divide_iff)
  let ?e0 = "bitlen p - bitlen q"
  show ?thesis
  proof (cases "2 powi ?e0 \<le> \<bar>x\<bar>")
    case True
    then show ?thesis by (simp add: exponent_def pq Let_def)
  next
    case False
    then have e: "exponent x = ?e0 - 1" by (simp add: exponent_def pq Let_def)
    have bp: "1 \<le> bitlen p" using p by (simp add: bitlen_alt_def)
    have bq: "1 \<le> bitlen q" using q by (simp add: bitlen_alt_def)
    have "(2::int) ^ nat (bitlen p - 1) \<le> p" using bitlen_bounds[OF p] ..
    then have "(of_int ((2::int) ^ nat (bitlen p - 1)) :: rat) \<le> of_int p"
      by (simp only: of_int_le_iff)
    then have lo: "(2::rat) powi (bitlen p - 1) \<le> of_int p"
      using bp by (simp add: power_int_def)
    have "q < (2::int) ^ nat (bitlen q)" using bitlen_bounds[OF q] ..
    then have "(of_int q :: rat) < of_int ((2::int) ^ nat (bitlen q))"
      by (simp only: of_int_less_iff)
    then have hi: "of_int q \<le> (2::rat) powi (bitlen q)"
      using bq by (simp add: power_int_def)
    have pos: "(0::rat) < 2 powi (bitlen q)" by (simp add: zero_less_power_int)
    have "(2::rat) powi (?e0 - 1) = 2 powi (bitlen p - 1) / 2 powi (bitlen q)"
      using power_int_diff[of "2::rat" "bitlen p - 1" "bitlen q"] by (simp add: algebra_simps)
    also have "\<dots> \<le> of_int p / 2 powi (bitlen q)"
      using lo pos by (simp add: divide_right_mono)
    also have "\<dots> \<le> of_int p / of_int q"
      using hi q p by (intro divide_left_mono) (simp_all add: zero_less_power_int)
    finally show ?thesis unfolding e x .
  qed
qed

lemma fl_error: "\<bar>fl x - x\<bar> \<le> \<bar>x\<bar> / 2 ^ 53"
proof (cases "x = 0")
  case True
  then show ?thesis by (simp add: fl_def)
next
  case False
  define u :: rat where "u = 2 powi (exponent x - 52)"
  have u: "0 < u" by (simp add: u_def zero_less_power_int)
  have "u = 2 powi (exponent x) / 2 ^ 52"
    unfolding u_def using power_int_diff[of "2::rat" "exponent x" 52] by simp
  also have "\<dots> \<le> \<bar>x\<bar> / 2 ^ 52"
    using exponent_le[OF False] by (simp add: divide_right_mono)
  finally have ux: "u \<le> \<bar>x\<bar> / 2 ^ 52" .
  have f: "fl x = of_int (round_half_even (x / u)) * u"
    using False by (simp add: fl_def u_def Let_def)
  have "fl x - x = (of_int (round_half_even (x / u)) - x / u) * u"
    unfolding f using u by (simp add: algebra_simps)
  then have "\<bar>fl x - x\<bar> = \<bar>of_int (round_half_even (x / u)) - x / u\<bar> * u"
    using u by (simp add: abs_mult)
  also have "\<dots> \<le> (1 / 2) * u"
    using round_half_even_error[of "x / u"] u by (intro mult_right_mono) simp_all
  also have "\<dots> \<le> (1 / 2) * (\<bar>x\<bar> / 2 ^ 52)"
    using ux by simp
  also have "\<dots> = \<bar>x\<bar> / 2 ^ 53" by simp
  finally show ?thesis .
qed


lemma fl_bounds:
  assumes "0 \<le> x"
  shows "x - x / 9007199254740992 \<le> fl x" and "fl x \<le> x + x / 9007199254740992"
proof -
  have "\<bar>fl x - x\<bar> \<le> x / 9007199254740992"
    using fl_error[of x] assms by simp
  then show "x - x / 9007199254740992 \<le> fl x" and "fl x \<le> x + x / 9007199254740992"
    by linarith+
qed

lemma fl_nonneg: "0 \<le> x \<Longrightarrow> 0 \<le> fl x"
  using fl_bounds(1)[of x] by linarith

text \<open>The sixteenth note at a tempo in \<open>[60,200]\<close>: close to \<open>15 / b\<close>.\<close>

lemma sixteenth_bounds:
  assumes "60 \<le> b" and "b \<le> 200"
  shows "7 / 100 \<le> sixteenth b" and "sixteenth b \<le> 1"
    and "\<bar>sixteenth b - 15 / b\<bar> \<le> 1 / 9007199254740992"
proof -
  define y where "y = 60 / b"
  have b: "0 < b" using assms(1) by simp
  have y1: "3 / 10 \<le> y" using assms b by (simp add: y_def field_simps)
  have y2: "y \<le> 1" using assms b by (simp add: y_def field_simps)
  have y0: "0 \<le> y" using y1 by simp
  define z where "z = fl y / 4"
  have e1: "y - y / 9007199254740992 \<le> fl y" and e2: "fl y \<le> y + y / 9007199254740992"
    using fl_bounds[OF y0] by simp_all
  have z0: "0 \<le> z" using fl_nonneg[OF y0] by (simp add: z_def)
  have e3: "z - z / 9007199254740992 \<le> fl z" and e4: "fl z \<le> z + z / 9007199254740992"
    using fl_bounds[OF z0] by simp_all
  have s: "sixteenth b = fl z" by (simp add: sixteenth_def z_def y_def)
  have q: "15 / b = y / 4" by (simp add: y_def)
  have z: "z = fl y / 4" by (simp add: z_def)
  show "7 / 100 \<le> sixteenth b" unfolding s using e1 e3 y1 y2 z by linarith
  show "sixteenth b \<le> 1" unfolding s using e2 e4 y1 y2 z by linarith
  show "\<bar>sixteenth b - 15 / b\<bar> \<le> 1 / 9007199254740992"
    unfolding s q using e1 e2 e3 e4 y1 y2 z by linarith
qed

text \<open>One advance from a time \<open>t\<close> in \<open>[0, 2^40]\<close> moves the clock on by at least a
  sixteenth of a second, and by \<open>d\<close> up to rounding.\<close>

lemma advance_time:
  assumes "0 \<le> t" and "7 / 100 \<le> d" and "d \<le> 1"
  shows "\<bar>fl (t + d) - t - d\<bar> \<le> (t + 1) / 9007199254740992"
    and "t \<le> 2 ^ 40 \<Longrightarrow> t + 1 / 16 \<le> fl (t + d)"
proof -
  have x: "0 \<le> t + d" using assms by linarith
  have lo: "t + d - (t / 9007199254740992 + d / 9007199254740992) \<le> fl (t + d)"
    using fl_bounds(1)[OF x] by (simp only: add_divide_distrib)
  have hi: "fl (t + d) \<le> t + d + (t / 9007199254740992 + d / 9007199254740992)"
    using fl_bounds(2)[OF x] by (simp only: add_divide_distrib)
  have a: "fl (t + d) - t - d \<le> t / 9007199254740992 + 1 / 9007199254740992"
    using hi assms by linarith
  have b: "- (fl (t + d) - t - d) \<le> t / 9007199254740992 + 1 / 9007199254740992"
    using lo assms by linarith
  show "\<bar>fl (t + d) - t - d\<bar> \<le> (t + 1) / 9007199254740992"
    unfolding add_divide_distrib using a b by (rule abs_leI)
  assume "t \<le> 2 ^ 40"
  then have "t \<le> 1099511627776" by simp
  then show "t + 1 / 16 \<le> fl (t + d)" using lo assms by linarith
qed

lemma advanceNote_fields:
  "s_bpm (Scheduler_advanceNote s) = s_bpm s"
  "s_nextNoteTime (Scheduler_advanceNote s) = fl (s_nextNoteTime s + sixteenth (s_bpm s))"
  "s_currentBeat (Scheduler_advanceNote s) = fl (s_currentBeat s + 1 / 4)"
  "s_callback (Scheduler_advanceNote s) = s_callback s"
  "s_isRunning (Scheduler_advanceNote s) = s_isRunning s"
  "s_config (Scheduler_advanceNote s) = s_config s"
  by (simp_all add: Scheduler_advanceNote_def Let_def sixteenth_def)

lemma funpow_advance_fields:
  "s_bpm ((Scheduler_advanceNote ^^ n) s) = s_bpm s"
  "s_callback ((Scheduler_advanceNote ^^ n) s) = s_callback s"
  "s_isRunning ((Scheduler_advanceNote ^^ n) s) = s_isRunning s"
  "s_config ((Scheduler_advanceNote ^^ n) s) = s_config s"
  by (induction n) (simp_all add: advanceNote_fields)

lemma tickAt_0: "tickAt s 0 = (s_nextNoteTime s, s_currentBeat s)"
  by (simp add: tickAt_def)

lemma tickAt_advance: "tickAt (Scheduler_advanceNote s) i = tickAt s (Suc i)"
  by (simp add: tickAt_def funpow_swap1)

lemma tickAt_funpow: "tickAt ((Scheduler_advanceNote ^^ n) s) i = tickAt s (n + i)"
  by (simp add: tickAt_def funpow_add add.commute)

lemma tickAt_Suc:
  "fst (tickAt s (Suc i)) = fl (fst (tickAt s i) + sixteenth (s_bpm s))"
  by (simp add: tickAt_def advanceNote_fields funpow_advance_fields)

lemma tickAt_nonneg:
  assumes "60 \<le> s_bpm s" and "s_bpm s \<le> 200" and "0 \<le> s_nextNoteTime s"
  shows "0 \<le> fst (tickAt s i)"
proof (induction i)
  case 0
  show ?case using assms(3) by (simp add: tickAt_0)
next
  case (Suc i)
  have "0 \<le> fst (tickAt s i) + sixteenth (s_bpm s)"
    using Suc sixteenth_bounds(1)[OF assms(1,2)] by linarith
  then show ?case unfolding tickAt_Suc by (rule fl_nonneg)
qed

lemma map_tickAt_Suc:
  "map (tickAt s) [0..<Suc n] = tickAt s 0 # map (tickAt (Scheduler_advanceNote s)) [0..<n]"
proof -
  have "[0..<Suc n] = 0 # map Suc [0..<n]"
    by (simp add: upt_conv_Cons map_Suc_upt del: upt_Suc)
  then show ?thesis by (simp add: tickAt_advance o_def del: upt_Suc)
qed

text \<open>
  While the callback returns, the tempo is in \<open>[60,200]\<close> and the window ends before
  \<open>2^40\<close> seconds, the loop of a poll pass returns, and the calls it makes are the
  next terms of the sequence; so does a pass, and so does any series of passes.
\<close>

lemma while_returns:
  "\<forall>tick. cb tick \<Longrightarrow> 60 \<le> s_bpm s \<Longrightarrow> s_bpm s \<le> 200 \<Longrightarrow> 0 \<le> s_nextNoteTime s \<Longrightarrow>
   e \<le> 2 ^ 40 \<Longrightarrow> e - s_nextNoteTime s \<le> of_nat k / 16 \<Longrightarrow>
   \<exists>n. Scheduler_while cb e s acc =
        Some ((Scheduler_advanceNote ^^ n) s, acc @ map (tickAt s) [0..<n])"
proof (induction k arbitrary: s acc)
  case 0
  then have "\<not> s_nextNoteTime s < e" by simp
  then have "Scheduler_while cb e s acc =
      Some ((Scheduler_advanceNote ^^ 0) s, acc @ map (tickAt s) [0..<0])"
    by (subst Scheduler_while.simps) simp
  then show ?case by blast
next
  case (Suc k)
  show ?case
  proof (cases "s_nextNoteTime s < e")
    case False
    then have "Scheduler_while cb e s acc =
        Some ((Scheduler_advanceNote ^^ 0) s, acc @ map (tickAt s) [0..<0])"
      by (subst Scheduler_while.simps) simp
    then show ?thesis by blast
  next
    case True
    let ?s = "Scheduler_advanceNote s"
    let ?t = "s_nextNoteTime s"
    note d = sixteenth_bounds[OF Suc.prems(2,3)]
    have t40: "?t \<le> 2 ^ 40" using True Suc.prems(5) by linarith
    have step: "?t + 1 / 16 \<le> s_nextNoteTime ?s"
      unfolding advanceNote_fields
      using advance_time(2)[OF Suc.prems(4) d(1,2) t40] .
    have b1: "60 \<le> s_bpm ?s" and b2: "s_bpm ?s \<le> 200"
      using Suc.prems(2,3) by (simp_all add: advanceNote_fields)
    have n0: "0 \<le> s_nextNoteTime ?s" using step Suc.prems(4) by linarith
    have "of_nat (Suc k) / (16::rat) = of_nat k / 16 + 1 / 16"
      by (simp add: add_divide_distrib)
    then have k: "e - s_nextNoteTime ?s \<le> of_nat k / 16"
      using step Suc.prems(6) by linarith
    from Suc.IH[OF Suc.prems(1) b1 b2 n0 Suc.prems(5) k,
        of "acc @ [(s_nextNoteTime s, s_currentBeat s)]"]
    obtain n where n: "Scheduler_while cb e ?s (acc @ [(s_nextNoteTime s, s_currentBeat s)]) =
        Some ((Scheduler_advanceNote ^^ n) ?s,
              (acc @ [(s_nextNoteTime s, s_currentBeat s)]) @ map (tickAt ?s) [0..<n])"
      by blast
    have "Scheduler_while cb e s acc =
        Scheduler_while cb e ?s (acc @ [(s_nextNoteTime s, s_currentBeat s)])"
      using True Suc.prems(1) by (subst Scheduler_while.simps) simp
    also note n
    finally have "Scheduler_while cb e s acc =
        Some ((Scheduler_advanceNote ^^ Suc n) s, acc @ map (tickAt s) [0..<Suc n])"
      unfolding map_tickAt_Suc tickAt_0 by (simp add: funpow_swap1)
    then show ?thesis by blast
  qed
qed

lemma scheduleLoop_returns:
  assumes "\<forall>tick. cb tick" and "60 \<le> s_bpm s" and "s_bpm s \<le> 200"
    and "0 \<le> s_nextNoteTime s" and "fl (now + lookahead (s_config s)) \<le> 2 ^ 40"
  shows "\<exists>n. Scheduler_scheduleLoop cb now s =
        Some ((Scheduler_advanceNote ^^ n) s, map (tickAt s) [0..<n])"
proof (cases "\<not> s_callback s \<or> \<not> s_isRunning s")
  case True
  then have "Scheduler_scheduleLoop cb now s =
      Some ((Scheduler_advanceNote ^^ 0) s, map (tickAt s) [0..<0])"
    by (simp add: Scheduler_scheduleLoop_def)
  then show ?thesis by blast
next
  case False
  let ?e = "fl (now + lookahead (s_config s))"
  obtain k :: nat where "(?e - s_nextNoteTime s) * 16 \<le> of_nat k"
    using real_arch_simple by blast
  then have "?e - s_nextNoteTime s \<le> of_nat k / 16" by (simp add: le_divide_eq)
  from while_returns[OF assms(1,2,3,4,5) this, of "[]"] False show ?thesis
    by (simp add: Scheduler_scheduleLoop_def)
qed

lemma funpow_advance_nonneg:
  assumes "60 \<le> s_bpm s" and "s_bpm s \<le> 200" and "0 \<le> s_nextNoteTime s"
  shows "0 \<le> s_nextNoteTime ((Scheduler_advanceNote ^^ n) s)"
  using tickAt_nonneg[OF assms, of n] by (simp add: tickAt_def)

lemma polls_returns:
  "\<forall>tick. cb tick \<Longrightarrow> 60 \<le> s_bpm s \<Longrightarrow> s_bpm s \<le> 200 \<Longrightarrow> 0 \<le> s_nextNoteTime s \<Longrightarrow>
   (\<And>now. now \<in> set nows \<Longrightarrow> fl (now + lookahead (s_config s)) \<le> 2 ^ 40) \<Longrightarrow>
   \<exists>n. Scheduler_polls cb nows s =
        Some ((Scheduler_advanceNote ^^ n) s, map (tickAt s) [0..<n])"
proof (induction nows arbitrary: s)
  case Nil
  have "Scheduler_polls cb [] s = Some ((Scheduler_advanceNote ^^ 0) s, map (tickAt s) [0..<0])"
    by simp
  then show ?case by blast
next
  case (Cons now nows)
  have w: "fl (now + lookahead (s_config s)) \<le> 2 ^ 40" using Cons.prems(5) by simp
  from scheduleLoop_returns[OF Cons.prems(1,2,3,4) w]
  obtain n where n: "Scheduler_scheduleLoop cb now s =
        Some ((Scheduler_advanceNote ^^ n) s, map (tickAt s) [0..<n])" by blast
  let ?s = "(Scheduler_advanceNote ^^ n) s"
  have b1: "60 \<le> s_bpm ?s" and b2: "s_bpm ?s \<le> 200"
    using Cons.prems(2,3) by (simp_all add: funpow_advance_fields)
  have n0: "0 \<le> s_nextNoteTime ?s"
    using Cons.prems(2,3,4) by (rule funpow_advance_nonneg)
  have w': "fl (now' + lookahead (s_config ?s)) \<le> 2 ^ 40" if "now' \<in> set nows" for now'
    using Cons.prems(5)[of now'] that by (simp add: funpow_advance_fields)
  from Cons.IH[OF Cons.prems(1) b1 b2 n0 w']
  obtain m where m: "Scheduler_polls cb nows ?s =
      Some ((Scheduler_advanceNote ^^ m) ?s, map (tickAt ?s) [0..<m])" by blast
  have "[n..<n + m] = map (\<lambda>i. n + i) [0..<m]"
    by (induction m) simp_all
  then have "map (tickAt ?s) [0..<m] = map (tickAt s) [n..<n + m]"
    by (simp add: tickAt_funpow o_def del: upt_Suc)
  then have l: "map (tickAt s) [0..<n] @ map (tickAt ?s) [0..<m] = map (tickAt s) [0..<n + m]"
    by (simp add: upt_add_eq_append[of 0 n m] del: upt_Suc)
  have "Scheduler_polls cb (now # nows) s =
      Some ((Scheduler_advanceNote ^^ (m + n)) s, map (tickAt s) [0..<n + m])"
    by (simp add: n m l funpow_add del: upt_Suc)
  then show ?case by (metis add.commute)
qed

text \<open>
  Claim C1, as the code has it. With a tempo \<open>b\<close> in \<open>[60,200]\<close> that stays fixed, a
  callback that returns, and windows that end before \<open>2^40\<close> seconds, any series of
  poll passes, at whatever clock readings, returns, and the schedule times it hands to
  the callback are the first terms of one sequence fixed by the Scheduler's state:
  each time is the one before plus the sixteenth note, rounded to a double. The clock
  readings decide only how many terms a pass emits. Two consecutive times differ by
  \<open>60 / (4 * b)\<close> up to that rounding, by at most \<open>(t + 2) / 2^53\<close> at time \<open>t\<close>.
\<close>

theorem tempo_interval_rounded:
  assumes "60 \<le> s_bpm s" and "s_bpm s \<le> 200" and "0 \<le> s_nextNoteTime s"
    and "\<forall>now \<in> set nows. fl (now + lookahead (s_config s)) \<le> 2 ^ 40"
    and "\<forall>tick. cb tick"
  shows "\<exists>s' ticks. Scheduler_polls cb nows s = Some (s', ticks) \<and>
     ticks = map (tickAt s) [0..<length ticks] \<and>
     (\<forall>i. Suc i < length ticks \<longrightarrow>
        fst (ticks ! Suc i) = fl (fst (ticks ! i) + sixteenth (s_bpm s)) \<and>
        \<bar>fst (ticks ! Suc i) - fst (ticks ! i) - 60 / (4 * s_bpm s)\<bar>
          \<le> (fst (ticks ! i) + 2) / 2 ^ 53)"
proof -
  have w: "fl (now + lookahead (s_config s)) \<le> 2 ^ 40" if "now \<in> set nows" for now
    using assms(4) that by simp
  from polls_returns[OF assms(5,1,2,3) w, of nows]
  obtain n where n: "Scheduler_polls cb nows s =
      Some ((Scheduler_advanceNote ^^ n) s, map (tickAt s) [0..<n])" by blast
  let ?ticks = "map (tickAt s) [0..<n]"
  have len: "length ?ticks = n" by simp
  note d = sixteenth_bounds[OF assms(1,2)]
  have q: "60 / (4 * s_bpm s) = 15 / s_bpm s" by simp
  have step: "fst (?ticks ! Suc i) = fl (fst (?ticks ! i) + sixteenth (s_bpm s)) \<and>
        \<bar>fst (?ticks ! Suc i) - fst (?ticks ! i) - 60 / (4 * s_bpm s)\<bar>
          \<le> (fst (?ticks ! i) + 2) / 2 ^ 53" if "Suc i < n" for i
  proof -
    have i: "i < n" using that by simp
    have a: "?ticks ! Suc i = tickAt s (Suc i)" and b: "?ticks ! i = tickAt s i"
      using that i by (simp_all del: upt_Suc)
    let ?t = "fst (tickAt s i)"
    have t0: "0 \<le> ?t" using assms(1,2,3) by (rule tickAt_nonneg)
    have e: "\<bar>fl (?t + sixteenth (s_bpm s)) - ?t - sixteenth (s_bpm s)\<bar>
        \<le> ?t / 9007199254740992 + 1 / 9007199254740992"
      using advance_time(1)[OF t0 d(1,2)] by (simp only: add_divide_distrib)
    have "\<bar>fl (?t + sixteenth (s_bpm s)) - ?t - 15 / s_bpm s\<bar>
        \<le> ?t / 9007199254740992 + 2 / 9007199254740992"
      using e d(3) by linarith
    then have "\<bar>fl (?t + sixteenth (s_bpm s)) - ?t - 15 / s_bpm s\<bar> \<le> (?t + 2) / 2 ^ 53"
      by (simp add: add_divide_distrib)
    then show ?thesis unfolding a b q tickAt_Suc by simp
  qed
  show ?thesis
  proof (intro exI conjI allI impI)
    show "Scheduler_polls cb nows s = Some ((Scheduler_advanceNote ^^ n) s, ?ticks)"
      by (rule n)
    show "?ticks = map (tickAt s) [0..<length ?ticks]" by simp
  next
    fix i assume "Suc i < length ?ticks"
    then have i: "Suc i < n" by simp
    show "fst (?ticks ! Suc i) = fl (fst (?ticks ! i) + sixteenth (s_bpm s))"
      using step[OF i] by (rule conjunct1)
    show "\<bar>fst (?ticks ! Suc i) - fst (?ticks ! i) - 60 / (4 * s_bpm s)\<bar>
          \<le> (fst (?ticks ! i) + 2) / 2 ^ 53"
      using step[OF i] by (rule conjunct2)
  qed
qed

text \<open>At 200 BPM from time 0, two passes at clock readings 0 and 0.125 make four calls,
  at the doubles printed 0, 0.075, 0.15 and 0.22499999999999998.\<close>

lemma fastScheduler_times:
  "map fst (snd (the (Scheduler_polls returns [0, 1 / 8] fastScheduler)))
     = [0, 5404319552844595 / 72057594037927936, 5404319552844595 / 36028797018963968,
        2026619832316723 / 9007199254740992]"
  by code_simp

theorem tempo_interval_rounded_witness:
  "60 \<le> s_bpm fastScheduler \<and> s_bpm fastScheduler \<le> 200 \<and>
   0 \<le> s_nextNoteTime fastScheduler \<and>
   fl (0 + lookahead (s_config fastScheduler)) \<le> 2 ^ 40 \<and>
   fl (1 / 8 + lookahead (s_config fastScheduler)) \<le> 2 ^ 40 \<and>
   (\<forall>tick. returns tick) \<and>
   map fst (snd (the (Scheduler_polls returns [0, 1 / 8] fastScheduler)))
     = [0, 5404319552844595 / 72057594037927936, 5404319552844595 / 36028797018963968,
        2026619832316723 / 9007199254740992] \<and>
   \<bar>fst (snd (the (Scheduler_polls returns [0, 1 / 8] fastScheduler)) ! Suc 2)
     - fst (snd (the (Scheduler_polls returns [0, 1 / 8] fastScheduler)) ! 2)
     - 60 / (4 * s_bpm fastScheduler)\<bar>
     \<le> (fst (snd (the (Scheduler_polls returns [0, 1 / 8] fastScheduler)) ! 2) + 2) / 2 ^ 53"
proof -
  let ?nows = "[0, 1 / 8] :: rat list"
  have a: "60 \<le> s_bpm fastScheduler" by code_simp
  have b: "s_bpm fastScheduler \<le> 200" by code_simp
  have c: "0 \<le> s_nextNoteTime fastScheduler" by code_simp
  have w1: "fl (0 + lookahead (s_config fastScheduler)) \<le> 2 ^ 40" by code_simp
  have w2: "fl (1 / 8 + lookahead (s_config fastScheduler)) \<le> 2 ^ 40" by code_simp
  have w: "\<forall>now \<in> set ?nows. fl (now + lookahead (s_config fastScheduler)) \<le> 2 ^ 40"
    using w1 w2 by simp
  have r: "\<forall>tick. returns tick" by (simp add: returns_def)
  note e = fastScheduler_times
  from tempo_interval_rounded[OF a b c w r]
  obtain s' ticks where p: "Scheduler_polls returns ?nows fastScheduler = Some (s', ticks)"
    and d: "\<forall>i. Suc i < length ticks \<longrightarrow>
        fst (ticks ! Suc i) = fl (fst (ticks ! i) + sixteenth (s_bpm fastScheduler)) \<and>
        \<bar>fst (ticks ! Suc i) - fst (ticks ! i) - 60 / (4 * s_bpm fastScheduler)\<bar>
          \<le> (fst (ticks ! i) + 2) / 2 ^ 53"
    by blast
  have ticks: "snd (the (Scheduler_polls returns ?nows fastScheduler)) = ticks"
    unfolding p by simp
  have "length (map fst ticks) = 4" using e unfolding ticks by simp
  then have "Suc 2 < length ticks" by simp
  with d have "\<bar>fst (ticks ! Suc 2) - fst (ticks ! 2) - 60 / (4 * s_bpm fastScheduler)\<bar>
          \<le> (fst (ticks ! 2) + 2) / 2 ^ 53"
    by blast
  then show ?thesis using a b c w1 w2 r e unfolding ticks by blast
qed

text \<open>
  The claim as stated fails: the first two times differ by the double 0.075, which is
  not \<open>60 / (4 * 200)\<close>, and the last two differ by less than the two before them;
  the difference of the last two, taken in doubles, is not the sixteenth note either.
\<close>

theorem tempo_interval_counterexample:
  "s_bpm fastScheduler = 200 \<and>
   map fst (snd (the (Scheduler_polls returns [0, 1 / 8] fastScheduler)))
     = [0, 5404319552844595 / 72057594037927936, 5404319552844595 / 36028797018963968,
        2026619832316723 / 9007199254740992] \<and>
   (5404319552844595 / 72057594037927936 - 0 :: rat) \<noteq> 60 / (4 * 200) \<and>
   (2026619832316723 / 9007199254740992 - 5404319552844595 / 36028797018963968 :: rat)
     \<noteq> 5404319552844595 / 36028797018963968 - 5404319552844595 / 72057594037927936 \<and>
   fl (2026619832316723 / 9007199254740992 - 5404319552844595 / 36028797018963968)
     \<noteq> sixteenth 200"
proof -
  have a: "s_bpm fastScheduler = 200" by code_simp
  have b: "fl (2026619832316723 / 9007199254740992 - 5404319552844595 / 36028797018963968)
     \<noteq> sixteenth 200" by code_simp
  show ?thesis using a b fastScheduler_times by simp
qed

text \<open>A callback that throws is handed the same time again by the next pass.\<close>

lemma throwing_callback_repeats:
  "map fst (snd (the (Scheduler_polls (\<lambda>tick. False) [0, 1 / 8] fastScheduler))) = [0, 0]"
  by code_simp

end
